theory Spec2Isabelle
  imports Main "HOL-Library.Word" "HOL-Library.Sublist"
begin

section \<open>Exit status codes and data structures of grep.c\<close>

text \<open>The three exit status codes (\<^verbatim>\<open>#define GREP_EXIT_...\<close>); \<^verbatim>\<open>status_code\<close> is a C int.\<close>

definition GREP_EXIT_MATCH :: int where "GREP_EXIT_MATCH = 0"
definition GREP_EXIT_NOMATCH :: int where "GREP_EXIT_NOMATCH = 1"
definition GREP_EXIT_FAILURE :: int where "GREP_EXIT_FAILURE = 2"

type_synonym size_t = "64 word"

text \<open>A C \<^verbatim>\<open>int\<close> that counts: a 32-bit word, read as signed by \<open>sint\<close>, whose increment
  wraps around as the machine's does.\<close>

type_synonym c_int = "32 word"

text \<open>
  The regular expression facility is the C library's (\<^verbatim>\<open>regcomp\<close>, \<^verbatim>\<open>regexec\<close>), not
  code of this program. A compiled \<^verbatim>\<open>regex_t\<close> is represented by what it was compiled
  from: the flags and the pattern text.
\<close>

datatype cflag = REG_NOSUB | REG_EXTENDED | REG_ICASE

datatype regex_t = Regex "cflag set" string

text \<open>\<^verbatim>\<open>struct grep_pattern\<close>. The field \<open>regex\<close> is \<open>None\<close> while \<^verbatim>\<open>regcomp\<close> has not
  filled it in.\<close>

record grep_pattern =
  pattern :: string
  regex :: "regex_t option"
  compiled :: bool

text \<open>\<^verbatim>\<open>struct grep_ctx\<close>. \<open>fn_match\<close> is the function pointer, \<open>None\<close> the null pointer
  that \<^verbatim>\<open>memset\<close> leaves there until \<^verbatim>\<open>grep_set_fn_match\<close> runs. \<open>pattern_list\<close> is the
  array of \<open>num_patterns\<close> elements.\<close>

record grep_ctx =
  status_code :: int
  num_files :: int
  line_count :: bool
  extended_reg_expr :: bool
  fixed_string :: bool
  case_insensitive :: bool
  write_file_names :: bool
  line_number :: bool
  quiet :: bool
  ignore_file_error :: bool
  invert_match :: bool
  full_string_match :: bool
  pattern_list :: "grep_pattern list"
  num_patterns :: size_t
  fn_match :: "(grep_pattern \<Rightarrow> string \<Rightarrow> bool) option"

section \<open>The environment: platform constants, library results, files and streams\<close>

text \<open>
  What the platform fixes: \<^verbatim>\<open>sizeof(struct grep_pattern)\<close>, the error code \<^verbatim>\<open>regcomp\<close>
  returns for a pattern text under given flags (0 on success), and the result of
  \<^verbatim>\<open>regexec\<close> for a regex compiled from that text and flags on a line (0 on a match).
\<close>

record platform =
  sizeof_grep_pattern :: size_t
  regcomp :: "cflag set \<Rightarrow> string \<Rightarrow> int"
  regexec :: "cflag set \<Rightarrow> string \<Rightarrow> string \<Rightarrow> int"

text \<open>
  An open \<^verbatim>\<open>FILE\<close>: the bytes not yet read, whether the read after the last byte fails
  instead of reporting end of file, the error indicator that \<^verbatim>\<open>ferror\<close> tests, and whether
  \<^verbatim>\<open>fclose\<close> fails.
\<close>

record FILE =
  content :: string
  rd_fails :: bool
  err_ind :: bool
  close_fails :: bool

datatype errno = EACCES | EISDIR | ELOOP | ENAMETOOLONG | ENOENT | ENOTDIR | ENXIO | EMFILE

text \<open>The calls that write to standard output, with their arguments:
  \<^verbatim>\<open>puts(s)\<close>, \<^verbatim>\<open>printf("%s:", s)\<close>, \<^verbatim>\<open>printf("%d:", n)\<close> and \<^verbatim>\<open>printf("%d\n", n)\<close>.\<close>

datatype out = Puts string | Printf_s_colon string | Printf_d_colon int | Printf_d_nl int

text \<open>
  The world outside the context structure. \<open>fs\<close> is what \<^verbatim>\<open>fopen(path, "r")\<close> yields.
  \<open>stdout\<close> lists the output calls that succeeded (a failing call writes nothing),
  \<open>stderr\<close> the warnings (the \<^verbatim>\<open>errno_msg\<close> flag
  and the format string of each \<^verbatim>\<open>grep_warn\<close>). \<open>out_fails\<close> and \<open>alloc_fails\<close> schedule the
  outcome of the next calls that write to standard output and that allocate memory
  (\<open>True\<close>: the call fails; an exhausted schedule: the call succeeds). \<open>freed\<close> lists the
  pattern strings handed to \<^verbatim>\<open>free\<close>, \<open>opened\<close> the paths handed to \<^verbatim>\<open>fopen\<close>.
\<close>

record world =
  fs :: "string \<Rightarrow> errno + FILE"
  stdin :: FILE
  stdout :: "out list"
  stderr :: "(bool \<times> string) list"
  out_fails :: "bool list"
  alloc_fails :: "bool list"
  freed :: "string list"
  opened :: "string list"

type_synonym state = "grep_ctx \<times> world"

definition alloc :: "world \<Rightarrow> bool \<times> world" where
  "alloc w = (case alloc_fails w of
       [] \<Rightarrow> (True, w)
     | b # bs \<Rightarrow> (\<not> b, w\<lparr>alloc_fails := bs\<rparr>))"

definition write_stdout :: "out \<Rightarrow> world \<Rightarrow> bool \<times> world" where
  "write_stdout ev w = (case out_fails w of
       [] \<Rightarrow> (True, w\<lparr>stdout := stdout w @ [ev]\<rparr>)
     | b # bs \<Rightarrow>
         if b then (False, w\<lparr>out_fails := bs\<rparr>)
         else (True, w\<lparr>stdout := stdout w @ [ev], out_fails := bs\<rparr>))"

definition free_str :: "string \<Rightarrow> world \<Rightarrow> world" where
  "free_str s w = w\<lparr>freed := freed w @ [s]\<rparr>"

definition fopen :: "string \<Rightarrow> world \<Rightarrow> (errno + FILE) \<times> world" where
  "fopen path w = (fs w path, w\<lparr>opened := opened w @ [path]\<rparr>)"

text \<open>\<^verbatim>\<open>getline\<close>: the next line with its newline, if it has one; \<open>None\<close> for the
  return value -1, at end of file or on a read error.\<close>

fun getline_split :: "string \<Rightarrow> string \<times> string" where
  "getline_split [] = ([], [])"
| "getline_split (c # cs) =
     (if c = CHR 0x0A then ([c], cs)
      else (case getline_split cs of (l, r) \<Rightarrow> (c # l, r)))"

definition getline :: "FILE \<Rightarrow> string option \<times> FILE" where
  "getline fp =
     (if content fp = [] then (None, fp\<lparr>err_ind := err_ind fp \<or> rd_fails fp\<rparr>)
      else (case getline_split (content fp) of (l, r) \<Rightarrow> (Some l, fp\<lparr>content := r\<rparr>)))"

text \<open>The C string that starts at a buffer: its bytes up to the first NUL.\<close>

definition cstr :: "string \<Rightarrow> string" where
  "cstr buf = takeWhile (\<lambda>c. c \<noteq> CHR 0x00) buf"

text \<open>\<^verbatim>\<open>line[read - 1] = '\0'\<close>: the last byte that \<^verbatim>\<open>getline\<close> returned is overwritten
  with NUL, whatever it is.\<close>

definition chop_last :: "string \<Rightarrow> string" where
  "chop_last raw = cstr (butlast raw)"

section \<open>C library string functions\<close>

text \<open>\<^verbatim>\<open>tolower\<close> in the C locale (the program never calls \<^verbatim>\<open>setlocale\<close>).\<close>

definition tolower :: "char \<Rightarrow> char" where
  "tolower c =
     (case map_of (zip ''ABCDEFGHIJKLMNOPQRSTUVWXYZ'' ''abcdefghijklmnopqrstuvwxyz'') c of
        Some d \<Rightarrow> d
      | None \<Rightarrow> c)"

text \<open>\<^verbatim>\<open>strcmp\<close> and \<^verbatim>\<open>strcasecmp\<close>: only the sign of the result is specified.\<close>

fun strcmp :: "string \<Rightarrow> string \<Rightarrow> int" where
  "strcmp [] [] = 0"
| "strcmp [] (d # t) = - 1"
| "strcmp (c # s) [] = 1"
| "strcmp (c # s) (d # t) =
     (if c = d then strcmp s t
      else if (of_char c :: nat) < of_char d then - 1 else 1)"

definition strcasecmp :: "string \<Rightarrow> string \<Rightarrow> int" where
  "strcasecmp s1 s2 = strcmp (map tolower s1) (map tolower s2)"

text \<open>\<^verbatim>\<open>strstr\<close>: the offset of the first occurrence of \<open>s2\<close> in \<open>s1\<close>, \<open>None\<close> for NULL.\<close>

fun strstr :: "string \<Rightarrow> string \<Rightarrow> nat option" where
  "strstr [] s2 = (if s2 = [] then Some 0 else None)"
| "strstr (c # s1) s2 =
     (if prefix s2 (c # s1) then Some 0 else map_option Suc (strstr s1 s2))"

text \<open>\<^verbatim>\<open>strtok\<close> from a position in the string: skip the delimiters, then the token runs
  to the next delimiter, which is overwritten, and the scan resumes after it. The
  result is the token and the position saved for the next call.\<close>

definition strtok :: "string \<Rightarrow> string \<Rightarrow> (string \<times> string) option" where
  "strtok s delim =
     (let s' = dropWhile (\<lambda>c. c \<in> set delim) s in
      if s' = [] then None
      else Some (takeWhile (\<lambda>c. c \<notin> set delim) s',
                 drop 1 (dropWhile (\<lambda>c. c \<notin> set delim) s')))"

section \<open>Overflow-checked size arithmetic\<close>

text \<open>Both return the wrap flag and the value stored through \<^verbatim>\<open>result\<close>.\<close>

definition si_add_size_t :: "size_t \<Rightarrow> size_t \<Rightarrow> bool \<times> size_t" where
  "si_add_size_t a b = (a + b < a, a + b)"

definition SIZE_MAX :: size_t where
  "SIZE_MAX = - 1"

definition si_mul_size_t :: "size_t \<Rightarrow> size_t \<Rightarrow> bool \<times> size_t" where
  "si_mul_size_t a b = (b \<noteq> 0 \<and> a > SIZE_MAX div b, a * b)"

section \<open>Case-insensitive substring search\<close>

text \<open>
  The inner \<^verbatim>\<open>while(1)\<close> of \<^verbatim>\<open>grep_strcasestr\<close>, for the character \<open>c\<close> at \<^verbatim>\<open>s1\<close> and the
  rest of \<^verbatim>\<open>s2\<close>: it only advances \<^verbatim>\<open>s2\<close>. \<open>True\<close> when it returns \<^verbatim>\<open>s1\<close>; otherwise the
  position of \<^verbatim>\<open>s2\<close> at the \<^verbatim>\<open>break\<close>.
\<close>

fun strcasestr_inner :: "char \<Rightarrow> string \<Rightarrow> bool \<times> string" where
  "strcasestr_inner c [] = (True, [])"
| "strcasestr_inner c (d # s2) =
     (if tolower c \<noteq> tolower d then (False, d # s2) else strcasestr_inner c s2)"

text \<open>The outer \<^verbatim>\<open>while(*s1)\<close>, with the offset of \<^verbatim>\<open>s1\<close> in the searched string.\<close>

fun strcasestr_outer :: "nat \<Rightarrow> string \<Rightarrow> string \<Rightarrow> nat option" where
  "strcasestr_outer i [] s2 = None"
| "strcasestr_outer i (c # s1) s2 =
     (case strcasestr_inner c s2 of
        (True, _) \<Rightarrow> Some i
      | (False, s2') \<Rightarrow> strcasestr_outer (i + 1) s1 s2')"

text \<open>The offset of the returned pointer in \<open>s1\<close>, \<open>None\<close> for NULL.\<close>

definition grep_strcasestr :: "string \<Rightarrow> string \<Rightarrow> nat option" where
  "grep_strcasestr s1 s2 = (if s2 = [] then Some 0 else strcasestr_outer 0 s1 s2)"

section \<open>Warnings\<close>

definition grep_warn :: "bool \<Rightarrow> string \<Rightarrow> state \<Rightarrow> state" where
  "grep_warn errno_msg fmt st =
     (case st of (ctx, w) \<Rightarrow>
        (ctx\<lparr>status_code := GREP_EXIT_FAILURE\<rparr>, w\<lparr>stderr := stderr w @ [(errno_msg, fmt)]\<rparr>))"

section \<open>Building the pattern list\<close>

text \<open>
  \<^verbatim>\<open>grep_pattern_append\<close>. The array holds \<open>num_patterns\<close> elements, so the element
  written at index \<open>num_patterns\<close> of the reallocated array is the new last one.
\<close>

definition grep_pattern_append :: "platform \<Rightarrow> string \<Rightarrow> state \<Rightarrow> state" where
  "grep_pattern_append plat pattern_str st =
     (case st of (ctx, w) \<Rightarrow>
        (case si_add_size_t (num_patterns ctx) 1 of (wraps1, alloc_sz1) \<Rightarrow>
           if wraps1 then
             (case grep_warn False ''realloc: %zu'' (ctx, w) of (ctx', w') \<Rightarrow>
                (ctx', free_str pattern_str w'))
           else
             (case si_mul_size_t alloc_sz1 (sizeof_grep_pattern plat) of (wraps2, alloc_sz) \<Rightarrow>
                if wraps2 then
                  (case grep_warn False ''realloc: %zu'' (ctx, w) of (ctx', w') \<Rightarrow>
                     (ctx', free_str pattern_str w'))
                else
                  (case alloc w of (ok, w1) \<Rightarrow>
                     if \<not> ok then
                       (case grep_warn True ''realloc: %zu'' (ctx, w1) of (ctx', w') \<Rightarrow>
                          (ctx', free_str pattern_str w'))
                     else
                       (ctx\<lparr>pattern_list := pattern_list ctx @
                               [\<lparr>pattern = pattern_str, regex = None, compiled = False\<rparr>],
                             num_patterns := num_patterns ctx + 1\<rparr>, w1)))))"

text \<open>\<^verbatim>\<open>strdup\<close> followed by \<^verbatim>\<open>grep_pattern_append\<close>, as both branches of
  \<^verbatim>\<open>grep_pattern_string\<close> do; \<open>fmt\<close> is the format of the warning.\<close>

definition strdup_append :: "platform \<Rightarrow> string \<Rightarrow> string \<Rightarrow> state \<Rightarrow> state" where
  "strdup_append plat fmt s st =
     (case st of (ctx, w) \<Rightarrow>
        (case alloc w of (ok, w1) \<Rightarrow>
           if \<not> ok then grep_warn True fmt (ctx, w1)
           else grep_pattern_append plat s (ctx, w1)))"

lemma strtok_shorter:
  "strtok s delim = Some (tok, rest) \<Longrightarrow> length rest < length s"
proof -
  assume a: "strtok s delim = Some (tok, rest)"
  define s' where "s' = dropWhile (\<lambda>c. c \<in> set delim) s"
  from a have ne: "s' \<noteq> []" and r: "rest = drop 1 (dropWhile (\<lambda>c. c \<notin> set delim) s')"
    by (auto simp: strtok_def s'_def Let_def split: if_splits)
  have "length (dropWhile (\<lambda>c. c \<notin> set delim) s') \<le> length s'"
    by (rule length_dropWhile_le)
  moreover have "length s' \<le> length s"
    unfolding s'_def by (rule length_dropWhile_le)
  moreover have "length rest < length s' \<or> length s' = 0"
    using r \<open>length (dropWhile (\<lambda>c. c \<notin> set delim) s') \<le> length s'\<close>
    by (cases "dropWhile (\<lambda>c. c \<notin> set delim) s'") auto
  ultimately show ?thesis using ne by auto
qed

text \<open>The \<^verbatim>\<open>for\<close> loop of \<^verbatim>\<open>grep_pattern_string\<close> over the tokens of \<^verbatim>\<open>strtok\<close>, from the
  position \<open>s\<close> that \<^verbatim>\<open>strtok\<close> has saved.\<close>

function grep_pattern_string_loop :: "platform \<Rightarrow> string \<Rightarrow> state \<Rightarrow> state" where
  "grep_pattern_string_loop plat s st =
     (case strtok s [CHR 0x0A] of
        None \<Rightarrow> st
      | Some (pattern_token, rest) \<Rightarrow>
          grep_pattern_string_loop plat rest (strdup_append plat ''strdup: %s'' pattern_token st))"
  by pat_completeness auto
termination
  by (relation "measure (\<lambda>(plat, s, st). length s)") (auto dest: strtok_shorter)

declare grep_pattern_string_loop.simps [simp del]

definition grep_pattern_string :: "platform \<Rightarrow> string \<Rightarrow> state \<Rightarrow> state" where
  "grep_pattern_string plat pattern_str st =
     (if pattern_str = [] then strdup_append plat ''strdup: \"\"'' [] st
      else grep_pattern_string_loop plat pattern_str st)"

text \<open>The \<^verbatim>\<open>getline\<close> loop of \<^verbatim>\<open>grep_pattern_file\<close>.\<close>

lemma getline_split_shorter: "s \<noteq> [] \<Longrightarrow> length (snd (getline_split s)) < length s"
proof (induction s)
  case Nil
  then show ?case by simp
next
  case (Cons c cs)
  show ?case
  proof (cases "cs = []")
    case True
    then show ?thesis by simp
  next
    case False
    with Cons.IH show ?thesis by (auto split: prod.splits)
  qed
qed

lemma getline_shorter:
  "getline fp = (Some raw, fp') \<Longrightarrow> length (content fp') < length (content fp)"
  using getline_split_shorter [of "content fp"]
  by (auto simp: getline_def split: if_splits prod.splits)

function grep_pattern_file_loop :: "platform \<Rightarrow> FILE \<Rightarrow> state \<Rightarrow> state \<times> FILE" where
  "grep_pattern_file_loop plat fp st =
     (case getline fp of
        (None, fp') \<Rightarrow> (st, fp')
      | (Some raw, fp') \<Rightarrow>
          grep_pattern_file_loop plat fp' (grep_pattern_append plat (chop_last raw) st))"
  by pat_completeness auto
termination
  by (relation "measure (\<lambda>(plat, fp, st). length (content fp))") (auto dest: getline_shorter [OF sym])

declare grep_pattern_file_loop.simps [simp del]

definition grep_pattern_file :: "platform \<Rightarrow> string \<Rightarrow> state \<Rightarrow> state" where
  "grep_pattern_file plat path st =
     (case st of (ctx, w) \<Rightarrow>
        (case fopen path w of
           (Inl e, w1) \<Rightarrow> grep_warn True ''fopen: %s'' (ctx, w1)
         | (Inr fp, w1) \<Rightarrow>
             (case grep_pattern_file_loop plat fp (ctx, w1) of (st1, fp1) \<Rightarrow>
                (let st2 = (if err_ind fp1 then grep_warn True ''ferror: %s'' st1 else st1);
                     st3 = (if close_fails fp1 then grep_warn True ''fclose: %s'' st2 else st2)
                 in st3))))"

section \<open>Compiling the patterns\<close>

text \<open>
  \<^verbatim>\<open>grep_pattern_add_bol_eol\<close> on one element of the array: the result is the element
  and the state. \<^verbatim>\<open>strlen\<close> returns a \<^verbatim>\<open>size_t\<close>.
\<close>

definition strlen :: "string \<Rightarrow> size_t" where
  "strlen s = of_nat (length s)"

definition grep_pattern_add_bol_eol :: "grep_pattern \<Rightarrow> state \<Rightarrow> grep_pattern \<times> state" where
  "grep_pattern_add_bol_eol p st =
     (case st of (ctx, w) \<Rightarrow>
        (case si_add_size_t (strlen (pattern p)) 5 of (wraps, alloc_sz) \<Rightarrow>
           if wraps then (p, grep_warn False ''malloc: %zu'' (ctx, w))
           else
             (case alloc w of (ok, w1) \<Rightarrow>
                if \<not> ok then (p, grep_warn True ''malloc: %zu'' (ctx, w1))
                else
                  (p\<lparr>pattern := ''^('' @ pattern p @ '')$''\<rparr>,
                   (ctx, free_str (pattern p) w1)))))"

definition grep_cflags :: "grep_ctx \<Rightarrow> cflag set" where
  "grep_cflags ctx =
     (let cflags = {REG_NOSUB};
          cflags = (if extended_reg_expr ctx then insert REG_EXTENDED cflags else cflags);
          cflags = (if case_insensitive ctx then insert REG_ICASE cflags else cflags)
      in cflags)"

text \<open>One iteration of the loop of \<^verbatim>\<open>grep_compile_pattern_list\<close>, on the element \<open>p\<close>.\<close>

definition grep_compile_pattern :: "platform \<Rightarrow> cflag set \<Rightarrow> grep_pattern \<Rightarrow> state \<Rightarrow> grep_pattern \<times> state" where
  "grep_compile_pattern plat cflags p st =
     (case (if full_string_match (fst st) then grep_pattern_add_bol_eol p st else (p, st)) of
        (p1, st1) \<Rightarrow>
          (let errcode = regcomp plat cflags (pattern p1) in
           if errcode = 0 then (p1\<lparr>regex := Some (Regex cflags (pattern p1)), compiled := True\<rparr>, st1)
           else (p1, grep_warn False ''regcomp(%s): %s'' st1)))"

text \<open>The loop over the array, element by element, with the elements already done.\<close>

fun grep_compile_loop :: "platform \<Rightarrow> cflag set \<Rightarrow> grep_pattern list \<Rightarrow> state \<Rightarrow> grep_pattern list \<times> state" where
  "grep_compile_loop plat cflags [] st = ([], st)"
| "grep_compile_loop plat cflags (p # ps) st =
     (case grep_compile_pattern plat cflags p st of (p', st1) \<Rightarrow>
        (case grep_compile_loop plat cflags ps st1 of (ps', st2) \<Rightarrow> (p' # ps', st2)))"

definition grep_compile_pattern_list :: "platform \<Rightarrow> state \<Rightarrow> state" where
  "grep_compile_pattern_list plat st =
     (case grep_compile_loop plat (grep_cflags (fst st)) (pattern_list (fst st)) st of
        (ps', (ctx', w')) \<Rightarrow> (ctx'\<lparr>pattern_list := ps'\<rparr>, w'))"

text \<open>\<^verbatim>\<open>grep_free_pattern_list\<close>: every pattern string is freed, then the array.\<close>

definition grep_free_pattern_list :: "state \<Rightarrow> state" where
  "grep_free_pattern_list st =
     (case st of (ctx, w) \<Rightarrow>
        (ctx\<lparr>pattern_list := [], num_patterns := 0\<rparr>,
         fold (\<lambda>p. free_str (pattern p)) (pattern_list ctx) w))"

section \<open>Match strategies\<close>

definition grep_match_fixed_strcmp :: "grep_pattern \<Rightarrow> string \<Rightarrow> bool" where
  "grep_match_fixed_strcmp p line \<longleftrightarrow> strcmp line (pattern p) = 0"

definition grep_match_fixed_strcasecmp :: "grep_pattern \<Rightarrow> string \<Rightarrow> bool" where
  "grep_match_fixed_strcasecmp p line \<longleftrightarrow> strcasecmp line (pattern p) = 0"

definition grep_match_fixed_strstr :: "grep_pattern \<Rightarrow> string \<Rightarrow> bool" where
  "grep_match_fixed_strstr p line \<longleftrightarrow> strstr line (pattern p) \<noteq> None"

definition grep_match_fixed_strcasestr :: "grep_pattern \<Rightarrow> string \<Rightarrow> bool" where
  "grep_match_fixed_strcasestr p line \<longleftrightarrow> grep_strcasestr line (pattern p) \<noteq> None"

text \<open>\<^verbatim>\<open>grep_match_regex\<close>. On a pattern that \<^verbatim>\<open>regcomp\<close> never filled in, \<^verbatim>\<open>regexec\<close>
  has no defined result; \<^verbatim>\<open>grep_main\<close> scans no line in that case.\<close>

definition grep_match_regex :: "platform \<Rightarrow> grep_pattern \<Rightarrow> string \<Rightarrow> bool" where
  "grep_match_regex plat p line \<longleftrightarrow>
     (case regex p of
        Some (Regex cflags text) \<Rightarrow> regexec plat cflags text line = 0
      | None \<Rightarrow> False)"

definition grep_set_fn_match :: "platform \<Rightarrow> grep_ctx \<Rightarrow> grep_ctx" where
  "grep_set_fn_match plat ctx =
     (if fixed_string ctx then
        (if case_insensitive ctx then
           (if full_string_match ctx then ctx\<lparr>fn_match := Some grep_match_fixed_strcasecmp\<rparr>
            else ctx\<lparr>fn_match := Some grep_match_fixed_strcasestr\<rparr>)
         else
           (if full_string_match ctx then ctx\<lparr>fn_match := Some grep_match_fixed_strcmp\<rparr>
            else ctx\<lparr>fn_match := Some grep_match_fixed_strstr\<rparr>))
      else ctx\<lparr>fn_match := Some (grep_match_regex plat)\<rparr>)"

section \<open>Evaluating a line\<close>

text \<open>The loop of \<^verbatim>\<open>grep_match_output_line\<close> over the array, with the value of
  \<^verbatim>\<open>matched\<close> so far. A call through the null function pointer has no defined result;
  \<^verbatim>\<open>grep_main\<close> sets the pointer before it scans.\<close>

fun grep_match_loop :: "(grep_pattern \<Rightarrow> string \<Rightarrow> bool) option \<Rightarrow> string \<Rightarrow> grep_pattern list \<Rightarrow> bool \<Rightarrow> bool" where
  "grep_match_loop fn line [] matched = matched"
| "grep_match_loop fn line (p # ps) matched =
     (case fn of
        None \<Rightarrow> False
      | Some f \<Rightarrow> grep_match_loop fn line ps (if f p line then True else matched))"

definition grep_match_output_line :: "grep_ctx \<Rightarrow> string \<Rightarrow> bool" where
  "grep_match_output_line ctx line =
     (let matched = grep_match_loop (fn_match ctx) line (pattern_list ctx) False;
          matched = (if invert_match ctx then \<not> matched else matched)
      in matched)"

section \<open>Scanning a stream\<close>

text \<open>An output call whose failure is answered by \<^verbatim>\<open>grep_warn(grep_ctx, true, fmt, ...)\<close>.\<close>

definition stdout_call :: "out \<Rightarrow> string \<Rightarrow> state \<Rightarrow> state" where
  "stdout_call ev fmt st =
     (case st of (ctx, w) \<Rightarrow>
        (case write_stdout ev w of (ok, w1) \<Rightarrow>
           if ok then (ctx, w1) else grep_warn True fmt (ctx, w1)))"

text \<open>The \<^verbatim>\<open>else\<close> branch for a matching line when \<^verbatim>\<open>write_file_names\<close> is off.\<close>

definition grep_output_match :: "string \<Rightarrow> string \<Rightarrow> c_int \<Rightarrow> state \<Rightarrow> state" where
  "grep_output_match path line line_i st =
     (if quiet (fst st) = False \<and> line_count (fst st) = False then
        (let st1 = (if num_files (fst st) > 1
                    then stdout_call (Printf_s_colon path) ''fputs: %s'' st else st);
             st2 = (if line_number (fst st1)
                    then stdout_call (Printf_d_colon (sint line_i)) ''printf: %d'' st1 else st1)
         in stdout_call (Puts line) ''puts: stdout: %s'' st2)
      else st)"

text \<open>The \<^verbatim>\<open>while\<close> loop of \<^verbatim>\<open>grep_match_output_fp\<close>: the state, the stream, \<^verbatim>\<open>line_i\<close> and
  \<^verbatim>\<open>match_i\<close> when the loop is left.\<close>

function grep_match_output_fp_loop ::
  "string \<Rightarrow> FILE \<Rightarrow> c_int \<Rightarrow> c_int \<Rightarrow> state \<Rightarrow> state \<times> FILE \<times> c_int \<times> c_int" where
  "grep_match_output_fp_loop path fp line_i match_i st =
     (case getline fp of
        (None, fp') \<Rightarrow> (st, fp', line_i, match_i)
      | (Some raw, fp') \<Rightarrow>
          (let line = chop_last raw in
           if grep_match_output_line (fst st) line then
             (let match_i' = match_i + 1;
                  st1 = (case st of (ctx, w) \<Rightarrow>
                           if status_code ctx \<noteq> GREP_EXIT_FAILURE
                           then (ctx\<lparr>status_code := GREP_EXIT_MATCH\<rparr>, w) else (ctx, w))
              in if write_file_names (fst st1) then
                   (stdout_call (Puts path) ''puts: %s'' st1, fp', line_i, match_i')
                 else
                   grep_match_output_fp_loop path fp' (line_i + 1) match_i'
                     (grep_output_match path line line_i st1))
           else grep_match_output_fp_loop path fp' (line_i + 1) match_i st))"
  by pat_completeness auto
termination
  by (relation "measure (\<lambda>(path, fp, line_i, match_i, st). length (content fp))")
     (auto dest: getline_shorter [OF sym])

declare grep_match_output_fp_loop.simps [simp del]

text \<open>\<^verbatim>\<open>grep_match_output_fp\<close>: the state and the stream as the call leaves them.\<close>

definition grep_match_output_fp :: "string \<Rightarrow> FILE \<Rightarrow> state \<Rightarrow> state \<times> FILE" where
  "grep_match_output_fp path fp st =
     (case grep_match_output_fp_loop path fp 1 0 st of (st1, fp1, line_i, match_i) \<Rightarrow>
        (let st2 = (if err_ind fp1 then grep_warn True path st1 else st1);
             st3 = (if line_count (fst st2) then
                      (let st2a = (if num_files (fst st2) > 1
                                   then stdout_call (Printf_s_colon path) ''fputs: %s'' st2
                                   else st2)
                       in stdout_call (Printf_d_nl (sint match_i)) ''printf: %d'' st2a)
                    else st2)
         in (st3, fp1)))"

definition fopen_error_display :: "grep_ctx \<Rightarrow> errno \<Rightarrow> bool" where
  "fopen_error_display ctx e =
     (if ignore_file_error ctx then
        (case e of
           EACCES \<Rightarrow> False
         | EISDIR \<Rightarrow> False
         | ELOOP \<Rightarrow> False
         | ENAMETOOLONG \<Rightarrow> False
         | ENOENT \<Rightarrow> False
         | ENOTDIR \<Rightarrow> False
         | ENXIO \<Rightarrow> False
         | _ \<Rightarrow> True)
      else True)"

definition grep_match_output_path :: "string \<Rightarrow> state \<Rightarrow> state" where
  "grep_match_output_path path st =
     (case st of (ctx, w) \<Rightarrow>
        (case fopen path w of
           (Inl e, w1) \<Rightarrow>
             (if fopen_error_display ctx e then grep_warn True ''fopen: %s'' (ctx, w1)
              else (ctx, w1))
         | (Inr fp, w1) \<Rightarrow>
             (case grep_match_output_fp path fp (ctx, w1) of (st1, fp1) \<Rightarrow>
                if close_fails fp1 then grep_warn True ''fclose: %s'' st1 else st1)))"

section \<open>The main entry point\<close>

text \<open>What \<^verbatim>\<open>getopt(argc, argv, "ce:Ef:Filnqsvx")\<close> returns, call after call, with
  \<^verbatim>\<open>optarg\<close>; \<open>Opt_unknown\<close> is any return value of the \<^verbatim>\<open>default\<close> case.\<close>

datatype opt =
  Opt_c | Opt_e string | Opt_E | Opt_f string | Opt_F | Opt_i | Opt_l | Opt_n
  | Opt_q | Opt_s | Opt_v | Opt_x | Opt_unknown

fun grep_main_opt :: "platform \<Rightarrow> opt \<Rightarrow> state \<Rightarrow> state" where
  "grep_main_opt plat Opt_c (ctx, w) = (ctx\<lparr>line_count := True\<rparr>, w)"
| "grep_main_opt plat (Opt_e optarg) (ctx, w) = grep_pattern_string plat optarg (ctx, w)"
| "grep_main_opt plat Opt_E (ctx, w) = (ctx\<lparr>extended_reg_expr := True\<rparr>, w)"
| "grep_main_opt plat (Opt_f optarg) (ctx, w) = grep_pattern_file plat optarg (ctx, w)"
| "grep_main_opt plat Opt_F (ctx, w) = (ctx\<lparr>fixed_string := True\<rparr>, w)"
| "grep_main_opt plat Opt_i (ctx, w) = (ctx\<lparr>case_insensitive := True\<rparr>, w)"
| "grep_main_opt plat Opt_l (ctx, w) = (ctx\<lparr>write_file_names := True\<rparr>, w)"
| "grep_main_opt plat Opt_n (ctx, w) = (ctx\<lparr>line_number := True\<rparr>, w)"
| "grep_main_opt plat Opt_q (ctx, w) = (ctx\<lparr>quiet := True\<rparr>, w)"
| "grep_main_opt plat Opt_s (ctx, w) = (ctx\<lparr>ignore_file_error := True\<rparr>, w)"
| "grep_main_opt plat Opt_v (ctx, w) = (ctx\<lparr>invert_match := True\<rparr>, w)"
| "grep_main_opt plat Opt_x (ctx, w) = (ctx\<lparr>full_string_match := True\<rparr>, w)"
| "grep_main_opt plat Opt_unknown (ctx, w) = (ctx\<lparr>status_code := GREP_EXIT_FAILURE\<rparr>, w)"

text \<open>The context after \<^verbatim>\<open>memset\<close> and the first assignment of \<^verbatim>\<open>grep_main\<close>.\<close>

definition grep_ctx_init :: grep_ctx where
  "grep_ctx_init =
     \<lparr>status_code = GREP_EXIT_NOMATCH, num_files = 0, line_count = False,
      extended_reg_expr = False, fixed_string = False, case_insensitive = False,
      write_file_names = False, line_number = False, quiet = False,
      ignore_file_error = False, invert_match = False, full_string_match = False,
      pattern_list = [], num_patterns = 0, fn_match = None\<rparr>"

text \<open>The checks of \<^verbatim>\<open>grep_main\<close> between the option loop and \<^verbatim>\<open>grep_set_fn_match\<close>:
  the state and the operands left in \<^verbatim>\<open>argv\<close>.\<close>

definition grep_main_checks :: "platform \<Rightarrow> string list \<Rightarrow> state \<Rightarrow> state \<times> string list" where
  "grep_main_checks plat argv st =
     (let st1 = (if extended_reg_expr (fst st) \<and> fixed_string (fst st)
                 then grep_warn False ''[-E|-F]'' st else st);
          st2 = (if (line_count (fst st1) \<and> write_file_names (fst st1)) \<or>
                    (line_count (fst st1) \<and> quiet (fst st1)) \<or>
                    (write_file_names (fst st1) \<and> quiet (fst st1))
                 then grep_warn False ''[-c|-l|-q]'' st1 else st1)
      in if num_patterns (fst st2) = 0 then
           (case argv of
              [] \<Rightarrow> (grep_warn False ''missing pattern_list'' st2, argv)
            | a # rest \<Rightarrow> (grep_pattern_string plat a st2, rest))
         else (st2, argv))"

text \<open>The part of \<^verbatim>\<open>grep_main\<close> that sets the match function and compiles.\<close>

definition grep_main_compile :: "platform \<Rightarrow> state \<Rightarrow> state" where
  "grep_main_compile plat st =
     (case st of (ctx, w) \<Rightarrow>
        (let st1 = (grep_set_fn_match plat ctx, w)
         in if \<not> fixed_string (fst st1) then grep_compile_pattern_list plat st1 else st1))"

text \<open>The part of \<^verbatim>\<open>grep_main\<close> that scans standard input or the files.\<close>

definition grep_main_scan :: "string list \<Rightarrow> state \<Rightarrow> state" where
  "grep_main_scan argv st =
     (if status_code (fst st) \<noteq> GREP_EXIT_FAILURE then
        (case st of (ctx, w) \<Rightarrow>
           if argv = [] then
             (case grep_match_output_fp ''(standard input)'' (stdin w) (ctx\<lparr>num_files := 1\<rparr>, w) of
                ((ctx', w'), fp') \<Rightarrow> (ctx', w'\<lparr>stdin := fp'\<rparr>))
           else
             fold grep_match_output_path argv (ctx\<lparr>num_files := int (length argv)\<rparr>, w))
      else st)"

definition grep_main :: "platform \<Rightarrow> opt list \<Rightarrow> string list \<Rightarrow> world \<Rightarrow> int \<times> world" where
  "grep_main plat opts operands w =
     (case grep_main_checks plat operands (fold (grep_main_opt plat) opts (grep_ctx_init, w)) of
        (st1, argv) \<Rightarrow>
          (case grep_free_pattern_list (grep_main_scan argv (grep_main_compile plat st1)) of
             (ctx, w') \<Rightarrow> (status_code ctx, w')))"

section \<open>Case-insensitive substring search: what it finds\<close>

lemma strcasestr_inner_suffix:
  "strcasestr_inner c s = (False, r) \<Longrightarrow> suffix r s \<and> r \<noteq> []"
  by (induction s) (auto split: if_splits simp: suffix_Cons)

lemma strcasestr_outer_prefix:
  "suffix r q \<Longrightarrow> r \<noteq> [] \<Longrightarrow> prefix (map tolower q) (map tolower s1) \<Longrightarrow>
   strcasestr_outer i s1 r \<noteq> None"
proof (induction q arbitrary: s1 r i)
  case Nil
  then show ?case by simp
next
  case (Cons d q)
  from Cons.prems(3) obtain c s1' where s1: "s1 = c # s1'" and cd: "tolower c = tolower d"
    and pre: "prefix (map tolower q) (map tolower s1')"
    by (cases s1) auto
  show ?case
  proof (cases "strcasestr_inner c r")
    case (Pair b r')
    show ?thesis
    proof (cases b)
      case True
      with Pair s1 show ?thesis by simp
    next
      case False
      with Pair have r': "suffix r' r" "r' \<noteq> []"
        using strcasestr_inner_suffix by auto
      have "suffix r' q"
      proof (cases "r = d # q")
        case True
        with Pair False cd have "strcasestr_inner c q = (False, r')" by simp
        then show ?thesis using strcasestr_inner_suffix by blast
      next
        case False
        with Cons.prems(1) have "suffix r q" by (auto simp: suffix_Cons)
        with r'(1) show ?thesis using suffix_order.trans by blast
      qed
      with Cons.IH [OF this r'(2) pre] Pair False s1 show ?thesis by simp
    qed
  qed
qed

lemma strcasestr_outer_sublist:
  "suffix r p \<Longrightarrow> r \<noteq> [] \<Longrightarrow> sublist (map tolower p) (map tolower s1) \<Longrightarrow>
   strcasestr_outer i s1 r \<noteq> None"
proof (induction s1 arbitrary: r i)
  case Nil
  then show ?case by (auto dest: suffix_bot.extremum_uniqueI)
next
  case (Cons c s1)
  from Cons.prems(3) consider "prefix (map tolower p) (map tolower (c # s1))"
    | "sublist (map tolower p) (map tolower s1)"
    by (auto simp: sublist_Cons_right)
  then show ?case
  proof cases
    case 1
    then show ?thesis using strcasestr_outer_prefix Cons.prems(1,2) by blast
  next
    case 2
    show ?thesis
    proof (cases "strcasestr_inner c r")
      case (Pair b r')
      show ?thesis
      proof (cases b)
        case True
        with Pair show ?thesis by simp
      next
        case False
        with Pair have "suffix r' r" "r' \<noteq> []" using strcasestr_inner_suffix by auto
        then have "suffix r' p" using Cons.prems(1) suffix_order.trans by blast
        from Cons.IH [OF this \<open>r' \<noteq> []\<close> 2] Pair False show ?thesis by simp
      qed
    qed
  qed
qed

text \<open>Every occurrence of the pattern under case folding is reported, and the two
  examples of the specification come out as stated.\<close>

lemma grep_strcasestr_finds_substrings:
  "sublist (map tolower (pattern p)) (map tolower line) \<Longrightarrow> grep_match_fixed_strcasestr p line"
  unfolding grep_match_fixed_strcasestr_def grep_strcasestr_def
  using strcasestr_outer_sublist [of "pattern p" "pattern p" line 0] by auto

lemma grep_strcasestr_examples:
  "grep_strcasestr ''aBc'' ''b'' = Some 1 \<and> grep_strcasestr ''abc'' ''d'' = None"
  by (simp add: grep_strcasestr_def tolower_def)

text \<open>
  C1. The claim: the case-insensitive fixed-string strategy reports a match if and only
  if the pattern occurs as a contiguous substring of the line under ASCII case folding.
  The inner loop never advances \<^verbatim>\<open>s1\<close> and \<^verbatim>\<open>s2\<close> is never reset, so the characters of the
  pattern are consumed across separate positions of the line: for the line \<open>a_b\<close> and
  the pattern \<open>ab\<close> the function returns the pointer at offset 2 and the strategy
  reports a match, although \<open>ab\<close> does not occur in \<open>a_b\<close>.
\<close>

theorem grep_strcasestr_not_substring:
  "grep_strcasestr ''a_b'' ''ab'' = Some 2 \<and>
   grep_match_fixed_strcasestr \<lparr>pattern = ''ab'', regex = None, compiled = False\<rparr> ''a_b'' \<and>
   \<not> sublist (map tolower ''ab'') (map tolower ''a_b'')"
  by (simp add: grep_strcasestr_def grep_match_fixed_strcasestr_def tolower_def
      sublist_Cons_right)

section \<open>Line evaluation is the disjunction over the patterns\<close>

lemma grep_match_loop_any:
  "grep_match_loop (Some f) line ps matched \<longleftrightarrow> matched \<or> (\<exists>p\<in>set ps. f p line)"
  by (induction ps arbitrary: matched) auto

text \<open>
  C2. For every pattern list, every match function \<open>f\<close> the context has selected and
  every line, \<^verbatim>\<open>grep_match_output_line\<close> returns the disjunction of \<open>f p line\<close> over the
  patterns \<open>p\<close> of the list when \<^verbatim>\<open>invert_match\<close> is false, and its negation when
  \<^verbatim>\<open>invert_match\<close> is true.
\<close>

theorem grep_match_output_line_or:
  assumes "fn_match ctx = Some f"
  shows "grep_match_output_line ctx line =
           (if invert_match ctx then \<not> (\<exists>p\<in>set (pattern_list ctx). f p line)
            else (\<exists>p\<in>set (pattern_list ctx). f p line))"
  using assms by (simp add: grep_match_output_line_def grep_match_loop_any)

theorem grep_match_output_line_or_witness:
  "fn_match (grep_ctx_init\<lparr>invert_match := True, fn_match := Some grep_match_fixed_strstr,
       pattern_list := [\<lparr>pattern = ''x'', regex = None, compiled = False\<rparr>,
                        \<lparr>pattern = ''bc'', regex = None, compiled = False\<rparr>]\<rparr>)
     = Some grep_match_fixed_strstr \<and>
   grep_match_output_line (grep_ctx_init\<lparr>invert_match := True,
       fn_match := Some grep_match_fixed_strstr,
       pattern_list := [\<lparr>pattern = ''x'', regex = None, compiled = False\<rparr>,
                        \<lparr>pattern = ''bc'', regex = None, compiled = False\<rparr>]\<rparr>) ''abc''
     = False"
  using grep_match_output_line_or [of "grep_ctx_init\<lparr>invert_match := True,
       fn_match := Some grep_match_fixed_strstr,
       pattern_list := [\<lparr>pattern = ''x'', regex = None, compiled = False\<rparr>,
                        \<lparr>pattern = ''bc'', regex = None, compiled = False\<rparr>]\<rparr>"
       grep_match_fixed_strstr "''abc''"]
  by (simp add: grep_ctx_init_def grep_match_fixed_strstr_def)

section \<open>An example platform and world\<close>

text \<open>A platform with an 80-byte \<^verbatim>\<open>struct grep_pattern\<close> and a regular expression library
  that rejects the text \<open>[abc\<close> and otherwise matches the text literally; a world with the
  given files and standard input, in which no call fails.\<close>

definition example_platform :: platform where
  "example_platform =
     \<lparr>sizeof_grep_pattern = 80,
      regcomp = (\<lambda>cflags text. if text = ''[abc'' then 7 else 0),
      regexec = (\<lambda>cflags text line. if strstr line text \<noteq> None then 0 else 1)\<rparr>"

definition example_world :: "(string \<times> string) list \<Rightarrow> string \<Rightarrow> world" where
  "example_world files input =
     \<lparr>fs = (\<lambda>path. case map_of files path of
                 None \<Rightarrow> Inl ENOENT
               | Some c \<Rightarrow> Inr \<lparr>content = c, rd_fails = False, err_ind = False,
                                close_fails = False\<rparr>),
      stdin = \<lparr>content = input, rd_fails = False, err_ind = False, close_fails = False\<rparr>,
      stdout = [], stderr = [], out_fails = [], alloc_fails = [], freed = [], opened = []\<rparr>"


section \<open>Appending a pattern\<close>

lemma si_add_size_t_wraps:
  "fst (si_add_size_t a b) \<longleftrightarrow> 2 ^ 64 \<le> unat a + unat b"
  using no_olen_add_nat [of a b]
  by (simp add: si_add_size_t_def not_le [symmetric])

lemma unat_SIZE_MAX: "unat SIZE_MAX = 2 ^ 64 - 1"
  by (simp add: SIZE_MAX_def unsigned_minus_1_eq_mask mask_eq_exp_minus_1)

lemma si_mul_size_t_wraps:
  "fst (si_mul_size_t a b) \<longleftrightarrow> 2 ^ 64 \<le> unat a * unat b"
proof (cases "b = 0")
  case True
  then show ?thesis by (simp add: si_mul_size_t_def)
next
  case False
  then have pos: "0 < unat b" by (simp add: unat_gt_0)
  have "SIZE_MAX div b < a \<longleftrightarrow> (2 ^ 64 - 1) div unat b < unat a"
    by (simp add: word_less_nat_alt unat_div unat_SIZE_MAX)
  also have "\<dots> \<longleftrightarrow> 2 ^ 64 - 1 < unat a * unat b"
    using pos by (simp add: div_less_iff_less_mult)
  also have "\<dots> \<longleftrightarrow> 2 ^ 64 \<le> unat a * unat b"
    by auto
  finally show ?thesis using False by (simp add: si_mul_size_t_def)
qed

text \<open>The size \<^verbatim>\<open>(num_patterns + 1) * sizeof(*pattern_list)\<close> does not fit a \<^verbatim>\<open>size_t\<close>:
  the sum or the product passes \<open>2 ^ 64 - 1\<close>.\<close>

definition append_size_overflows :: "platform \<Rightarrow> grep_ctx \<Rightarrow> bool" where
  "append_size_overflows plat ctx \<longleftrightarrow>
     (2 :: nat) ^ 64 \<le> unat (num_patterns ctx) + 1 \<or>
     (2 :: nat) ^ 64 \<le> (unat (num_patterns ctx) + 1) * unat (sizeof_grep_pattern plat)"

text \<open>The next allocation is scheduled to fail.\<close>

definition next_alloc_fails :: "world \<Rightarrow> bool" where
  "next_alloc_fails w \<longleftrightarrow> (case alloc_fails w of [] \<Rightarrow> False | b # bs \<Rightarrow> b)"

lemma grep_pattern_append_failure:
  assumes "append_size_overflows plat ctx \<or> next_alloc_fails w"
  shows "\<exists>w'. grep_pattern_append plat s (ctx, w) = (ctx\<lparr>status_code := GREP_EXIT_FAILURE\<rparr>, w') \<and>
           freed w' = freed w @ [s] \<and> length (stderr w') = length (stderr w) + 1"
proof -
  obtain w1 a1 where a: "si_add_size_t (num_patterns ctx) 1 = (w1, a1)" by fastforce
  obtain w2 a2 where m: "si_mul_size_t a1 (sizeof_grep_pattern plat) = (w2, a2)" by fastforce
  have w1: "w1 \<longleftrightarrow> 2 ^ 64 \<le> unat (num_patterns ctx) + 1"
    using si_add_size_t_wraps [of "num_patterns ctx" 1] a by simp
  have a1: "a1 = num_patterns ctx + 1" using a by (simp add: si_add_size_t_def)
  have w2: "\<not> w1 \<Longrightarrow> w2 \<longleftrightarrow> 2 ^ 64 \<le> (unat (num_patterns ctx) + 1) * unat (sizeof_grep_pattern plat)"
    using si_mul_size_t_wraps [of a1 "sizeof_grep_pattern plat"] m w1 a1
    by (simp add: unat_word_ariths)
  show ?thesis
  proof (cases "w1 \<or> w2")
    case True
    then show ?thesis using a m
      by (auto simp: grep_pattern_append_def grep_warn_def free_str_def)
  next
    case False
    with assms w1 w2 have "next_alloc_fails w" by (auto simp: append_size_overflows_def)
    then show ?thesis using a m False
      by (auto simp: grep_pattern_append_def grep_warn_def free_str_def alloc_def
          next_alloc_fails_def split: list.splits)
  qed
qed

lemma grep_pattern_append_success:
  assumes "\<not> append_size_overflows plat ctx" "\<not> next_alloc_fails w"
  shows "grep_pattern_append plat s (ctx, w) =
           (ctx\<lparr>pattern_list := pattern_list ctx @ [\<lparr>pattern = s, regex = None, compiled = False\<rparr>],
                 num_patterns := num_patterns ctx + 1\<rparr>, snd (alloc w)) \<and>
         unat (num_patterns ctx + 1) = unat (num_patterns ctx) + 1"
proof -
  obtain w1 a1 where a: "si_add_size_t (num_patterns ctx) 1 = (w1, a1)" by fastforce
  obtain w2 a2 where m: "si_mul_size_t a1 (sizeof_grep_pattern plat) = (w2, a2)" by fastforce
  have w1: "w1 \<longleftrightarrow> 2 ^ 64 \<le> unat (num_patterns ctx) + 1"
    using si_add_size_t_wraps [of "num_patterns ctx" 1] a by simp
  have a1: "a1 = num_patterns ctx + 1" using a by (simp add: si_add_size_t_def)
  have nw1: "\<not> w1" using assms(1) w1 by (simp add: append_size_overflows_def)
  then have u: "unat (num_patterns ctx + 1) = unat (num_patterns ctx) + 1"
    using w1 unat_add_lem [of "num_patterns ctx" 1] by simp
  have "w2 \<longleftrightarrow> 2 ^ 64 \<le> (unat (num_patterns ctx) + 1) * unat (sizeof_grep_pattern plat)"
    using si_mul_size_t_wraps [of a1 "sizeof_grep_pattern plat"] m a1 u by simp
  then have nw2: "\<not> w2" using assms(1) by (simp add: append_size_overflows_def)
  show ?thesis using a m nw1 nw2 a1 u assms(2)
    by (auto simp: grep_pattern_append_def alloc_def next_alloc_fails_def split: list.splits)
qed



text \<open>
  C7. \<^verbatim>\<open>grep_pattern_append\<close> either fails, when the size arithmetic overflows or the
  allocation fails: the status becomes the failure status, a warning is written, the
  supplied string is freed, and the count and the stored patterns are unchanged; or it
  succeeds: the count grows by exactly one and the new last pattern is the supplied
  string with \<open>compiled = False\<close>, the status and the freed strings unchanged.
\<close>

theorem grep_pattern_append_outcome:
  "case grep_pattern_append plat s (ctx, w) of (ctx', w') \<Rightarrow>
     (if append_size_overflows plat ctx \<or> next_alloc_fails w then
        status_code ctx' = GREP_EXIT_FAILURE \<and>
        length (stderr w') = length (stderr w) + 1 \<and>
        freed w' = freed w @ [s] \<and>
        num_patterns ctx' = num_patterns ctx \<and>
        pattern_list ctx' = pattern_list ctx
      else
        unat (num_patterns ctx') = unat (num_patterns ctx) + 1 \<and>
        pattern_list ctx' = pattern_list ctx @ [\<lparr>pattern = s, regex = None, compiled = False\<rparr>] \<and>
        status_code ctx' = status_code ctx \<and>
        freed w' = freed w \<and> stderr w' = stderr w)"
proof (cases "append_size_overflows plat ctx \<or> next_alloc_fails w")
  case True
  from grep_pattern_append_failure [OF True, of s] True show ?thesis by auto
next
  case False
  with grep_pattern_append_success [of plat ctx w s] show ?thesis
    by (auto simp: alloc_def split: list.splits)
qed

theorem grep_pattern_append_outcome_witness:
  "append_size_overflows example_platform (grep_ctx_init\<lparr>num_patterns := - 1\<rparr>) \<and>
   status_code (fst (grep_pattern_append example_platform ''abc''
       (grep_ctx_init\<lparr>num_patterns := - 1\<rparr>, example_world [] []))) = GREP_EXIT_FAILURE \<and>
   freed (snd (grep_pattern_append example_platform ''abc''
       (grep_ctx_init\<lparr>num_patterns := - 1\<rparr>, example_world [] []))) = [''abc'']"
proof -
  have ov: "append_size_overflows example_platform (grep_ctx_init\<lparr>num_patterns := - 1\<rparr>)"
    by (simp add: append_size_overflows_def grep_ctx_init_def unsigned_minus_1_eq_mask mask_eq_exp_minus_1)
  show ?thesis
    using ov grep_pattern_append_outcome [where plat = example_platform and s = "''abc''"
      and ctx = "grep_ctx_init\<lparr>num_patterns := - 1\<rparr>" and w = "example_world [] []"]
    by (simp add: example_world_def split: prod.splits)
qed


section \<open>Patterns from a string of newline-separated patterns\<close>

text \<open>A freshly appended element, the room for \<open>k\<close> more elements, and the context
  with the strings \<open>ss\<close> appended.\<close>

definition new_pattern :: "string \<Rightarrow> grep_pattern" where
  "new_pattern s = \<lparr>pattern = s, regex = None, compiled = False\<rparr>"

definition patterns_fit :: "platform \<Rightarrow> grep_ctx \<Rightarrow> nat \<Rightarrow> bool" where
  "patterns_fit plat ctx k \<longleftrightarrow>
     unat (num_patterns ctx) + k < 2 ^ 64 \<and>
     (unat (num_patterns ctx) + k) * unat (sizeof_grep_pattern plat) < 2 ^ 64"

definition add_patterns :: "string list \<Rightarrow> grep_ctx \<Rightarrow> grep_ctx" where
  "add_patterns ss ctx =
     ctx\<lparr>pattern_list := pattern_list ctx @ map new_pattern ss,
         num_patterns := num_patterns ctx + of_nat (length ss)\<rparr>"

lemma patterns_fit_Suc:
  assumes "patterns_fit plat ctx (Suc k)"
  shows "\<not> append_size_overflows plat ctx"
    and "patterns_fit plat (add_patterns [s] ctx) k"
proof -
  let ?n = "unat (num_patterns ctx)" and ?z = "unat (sizeof_grep_pattern plat)"
  from assms have a: "?n + Suc k < 2 ^ 64" and b: "(?n + Suc k) * ?z < 2 ^ 64"
    by (simp_all add: patterns_fit_def)
  have le: "(?n + 1) * ?z \<le> (?n + Suc k) * ?z" by (intro mult_le_mono1) simp
  have c1: "\<not> 2 ^ 64 \<le> ?n + 1" using a by simp
  have c2: "\<not> 2 ^ 64 \<le> (?n + 1) * ?z" using le b by linarith
  show "\<not> append_size_overflows plat ctx"
    unfolding append_size_overflows_def using c1 c2 by blast
  have u: "unat (num_patterns ctx + 1) = ?n + 1"
    using a unat_add_lem [of "num_patterns ctx" 1] by simp
  have "?n + 1 + k = ?n + Suc k" by simp
  then show "patterns_fit plat (add_patterns [s] ctx) k"
    using a b u unfolding patterns_fit_def add_patterns_def by simp
qed

lemma fold_grep_pattern_append:
  assumes "alloc_fails w = []" "patterns_fit plat ctx (length ss)"
  shows "fold (grep_pattern_append plat) ss (ctx, w) = (add_patterns ss ctx, w)"
  using assms
proof (induction ss arbitrary: ctx)
  case Nil
  then show ?case by (simp add: add_patterns_def)
next
  case (Cons s ss)
  from Cons.prems(2) have pf: "patterns_fit plat ctx (Suc (length ss))" by simp
  have nov: "\<not> append_size_overflows plat ctx"
    and fit: "patterns_fit plat (add_patterns [s] ctx) (length ss)"
    using patterns_fit_Suc [OF pf] by simp_all
  have naf: "\<not> next_alloc_fails w" using Cons.prems(1) by (simp add: next_alloc_fails_def)
  have step: "grep_pattern_append plat s (ctx, w) = (add_patterns [s] ctx, w)"
    using grep_pattern_append_success [OF nov naf, of s] Cons.prems(1)
    by (simp add: add_patterns_def new_pattern_def alloc_def)
  have "add_patterns ss (add_patterns [s] ctx) = add_patterns (s # ss) ctx"
    by (simp add: add_patterns_def add.assoc)
  with Cons.IH [OF Cons.prems(1) fit] step show ?case by simp
qed

lemma strdup_append_no_failure:
  "alloc_fails w = [] \<Longrightarrow> strdup_append plat fmt s (ctx, w) = grep_pattern_append plat s (ctx, w)"
  by (simp add: strdup_append_def alloc_def)

lemma fold_strdup_append:
  assumes "alloc_fails w = []" "patterns_fit plat ctx (length ss)"
  shows "fold (strdup_append plat fmt) ss (ctx, w) = (add_patterns ss ctx, w)"
  using assms
proof (induction ss arbitrary: ctx)
  case Nil
  then show ?case by (simp add: add_patterns_def)
next
  case (Cons s ss)
  from Cons.prems(2) have pf: "patterns_fit plat ctx (Suc (length ss))" by simp
  have nov: "\<not> append_size_overflows plat ctx"
    and fit: "patterns_fit plat (add_patterns [s] ctx) (length ss)"
    using patterns_fit_Suc [OF pf] by simp_all
  have naf: "\<not> next_alloc_fails w" using Cons.prems(1) by (simp add: next_alloc_fails_def)
  have step: "strdup_append plat fmt s (ctx, w) = (add_patterns [s] ctx, w)"
    using grep_pattern_append_success [OF nov naf, of s] Cons.prems(1)
    by (simp add: strdup_append_no_failure add_patterns_def new_pattern_def alloc_def)
  have "add_patterns ss (add_patterns [s] ctx) = add_patterns (s # ss) ctx"
    by (simp add: add_patterns_def add.assoc)
  with Cons.IH [OF Cons.prems(1) fit] step show ?case by simp
qed

text \<open>The segments of a string between its newlines, and those that are not empty.\<close>

fun split_nl :: "string \<Rightarrow> string list" where
  "split_nl [] = [[]]"
| "split_nl (c # cs) =
     (if c = CHR 0x0A then [] # split_nl cs
      else (case split_nl cs of [] \<Rightarrow> [[c]] | s # ss \<Rightarrow> (c # s) # ss))"

definition segments :: "string \<Rightarrow> string list" where
  "segments s = filter (\<lambda>t. t \<noteq> []) (split_nl s)"

lemma split_nl_not_Nil: "split_nl s \<noteq> []"
  by (induction s) (auto split: list.splits)

lemma segments_Cons_nl: "segments (CHR 0x0A # s) = segments s"
  by (simp add: segments_def)

lemma segments_dropWhile: "segments (dropWhile (\<lambda>c. c \<in> set [CHR 0x0A]) s) = segments s"
  by (induction s) (auto simp: segments_Cons_nl)

lemma split_nl_token:
  "split_nl s = takeWhile (\<lambda>c. c \<notin> set [CHR 0x0A]) s #
     (case dropWhile (\<lambda>c. c \<notin> set [CHR 0x0A]) s of [] \<Rightarrow> [] | d # r \<Rightarrow> split_nl r)"
  by (induction s) (auto split: list.splits simp: split_nl_not_Nil)

lemma segments_token:
  assumes "s \<noteq> []" "hd s \<noteq> CHR 0x0A"
  shows "segments s = takeWhile (\<lambda>c. c \<notin> set [CHR 0x0A]) s #
           segments (drop 1 (dropWhile (\<lambda>c. c \<notin> set [CHR 0x0A]) s))"
proof -
  have ne: "takeWhile (\<lambda>c. c \<notin> set [CHR 0x0A]) s \<noteq> []"
    using assms by (cases s) auto
  show ?thesis
  proof (cases "dropWhile (\<lambda>c. c \<notin> set [CHR 0x0A]) s")
    case Nil
    then show ?thesis using ne split_nl_token [of s]
      by (simp add: segments_def del: dropWhile_eq_Nil_conv)
  next
    case (Cons d r)
    then show ?thesis using ne split_nl_token [of s]
      by (simp add: segments_def del: dropWhile_eq_Nil_conv)
  qed
qed

lemma strtok_segments:
  "strtok s [CHR 0x0A] = None \<Longrightarrow> segments s = []"
  "strtok s [CHR 0x0A] = Some (tok, rest) \<Longrightarrow> segments s = tok # segments rest"
proof -
  let ?s' = "dropWhile (\<lambda>c. c \<in> set [CHR 0x0A]) s"
  show "strtok s [CHR 0x0A] = None \<Longrightarrow> segments s = []"
  proof -
    assume "strtok s [CHR 0x0A] = None"
    then have "?s' = []" by (simp add: strtok_def Let_def split: if_splits)
    then have "segments ?s' = segments []" by (rule arg_cong)
    also have "\<dots> = []" by (simp add: segments_def)
    finally show ?thesis by (simp only: segments_dropWhile)
  qed
  show "strtok s [CHR 0x0A] = Some (tok, rest) \<Longrightarrow> segments s = tok # segments rest"
  proof -
    assume a: "strtok s [CHR 0x0A] = Some (tok, rest)"
    then have ne: "?s' \<noteq> []"
      and t: "tok = takeWhile (\<lambda>c. c \<notin> set [CHR 0x0A]) ?s'"
      and r: "rest = drop 1 (dropWhile (\<lambda>c. c \<notin> set [CHR 0x0A]) ?s')"
      by (auto simp: strtok_def Let_def split: if_splits)
    have "hd ?s' \<noteq> CHR 0x0A" using ne hd_dropWhile [of "\<lambda>c. c \<in> set [CHR 0x0A]" s] by simp
    from segments_token [OF ne this] t r have "segments ?s' = tok # segments rest" by simp
    then show ?thesis by (simp only: segments_dropWhile)
  qed
qed

lemma grep_pattern_string_loop_fold:
  "grep_pattern_string_loop plat s st = fold (strdup_append plat ''strdup: %s'') (segments s) st"
proof (induction plat s st rule: grep_pattern_string_loop.induct)
  case (1 plat s st)
  show ?case
  proof (cases "strtok s [CHR 0x0A]")
    case None
    then have "grep_pattern_string_loop plat s st = st"
      by (subst grep_pattern_string_loop.simps) simp
    moreover have "segments s = []" using None by (rule strtok_segments(1))
    ultimately show ?thesis by simp
  next
    case (Some a)
    obtain tok rest where a: "a = (tok, rest)" by (cases a)
    have tk: "strtok s [CHR 0x0A] = Some (tok, rest)" using Some a by simp
    have "grep_pattern_string_loop plat s st =
            grep_pattern_string_loop plat rest (strdup_append plat ''strdup: %s'' tok st)"
      by (subst grep_pattern_string_loop.simps) (simp add: tk)
    also have "\<dots> = fold (strdup_append plat ''strdup: %s'') (segments rest)
                       (strdup_append plat ''strdup: %s'' tok st)"
      using tk by (rule "1.IH" [OF _ refl])
    also have "\<dots> = fold (strdup_append plat ''strdup: %s'') (segments s) st"
      using strtok_segments(2) [OF tk] by simp
    finally show ?thesis .
  qed
qed

lemma segments_no_empty: "[] \<notin> set (segments s)"
  by (simp add: segments_def)

lemma segments_only_newlines: "set s \<subseteq> {CHR 0x0A} \<Longrightarrow> segments s = []"
  by (induction s) (auto simp: segments_def)

lemma split_nl_concat: "concat (map (\<lambda>t. t @ [CHR 0x0A]) (split_nl s)) = s @ [CHR 0x0A]"
  by (induction s) (auto split: list.splits simp: split_nl_not_Nil)

lemma split_nl_newline_free: "t \<in> set (split_nl s) \<Longrightarrow> CHR 0x0A \<notin> set t"
  by (induction s arbitrary: t) (auto split: list.splits if_splits)

text \<open>
  C10. When no allocation fails and the sizes fit, \<^verbatim>\<open>grep_pattern_string\<close> on a non-empty
  string appends exactly its non-empty newline-free segments, in order, and leaves the
  rest of the state alone; no segment is empty, so leading, trailing and consecutive
  newlines add no pattern, and a string of newlines only adds none. The empty string adds
  one empty pattern.
\<close>

theorem grep_pattern_string_segments:
  assumes "alloc_fails w = []"
    and "patterns_fit plat ctx (if s = [] then 1 else length (segments s))"
  shows "grep_pattern_string plat s (ctx, w) =
           (add_patterns (if s = [] then [[]] else segments s) ctx, w) \<and>
         [] \<notin> set (segments s) \<and>
         (set s \<subseteq> {CHR 0x0A} \<longrightarrow> segments s = [])"
proof -
  have "grep_pattern_string plat s (ctx, w) =
           (add_patterns (if s = [] then [[]] else segments s) ctx, w)"
  proof (cases "s = []")
    case True
    with assms(2) have "patterns_fit plat ctx (length [[] :: string])" by simp
    from fold_strdup_append [OF assms(1) this] True show ?thesis
      by (simp add: grep_pattern_string_def)
  next
    case False
    with assms(2) have "patterns_fit plat ctx (length (segments s))" by simp
    from fold_strdup_append [OF assms(1) this] False show ?thesis
      by (simp add: grep_pattern_string_def grep_pattern_string_loop_fold)
  qed
  then show ?thesis using segments_no_empty segments_only_newlines by blast
qed

theorem grep_pattern_string_segments_witness:
  "alloc_fails (example_world [] []) = [] \<and>
   grep_pattern_string example_platform ''a\<newline>\<newline>b\<newline>'' (grep_ctx_init, example_world [] []) =
     (add_patterns [''a'', ''b''] grep_ctx_init, example_world [] [])"
proof -
  have a: "alloc_fails (example_world [] []) = []" by (simp add: example_world_def)
  have s: "segments ''a\<newline>\<newline>b\<newline>'' = [''a'', ''b'']" by (simp add: segments_def)
  have f: "patterns_fit example_platform grep_ctx_init
             (if ''a\<newline>\<newline>b\<newline>'' = [] then 1 else length (segments ''a\<newline>\<newline>b\<newline>''))"
    by (simp add: s patterns_fit_def grep_ctx_init_def example_platform_def)
  from grep_pattern_string_segments [OF a f] a s show ?thesis by simp
qed

section \<open>Lines of a stream\<close>

text \<open>The lines that successive calls of \<^verbatim>\<open>getline\<close> return on the bytes \<open>s\<close>: each ends
  with its newline, except a last line that has none.\<close>

fun file_lines :: "string \<Rightarrow> string list" where
  "file_lines [] = []"
| "file_lines (c # cs) =
     (if c = CHR 0x0A then [c] # file_lines cs
      else (case file_lines cs of [] \<Rightarrow> [[c]] | l # ls \<Rightarrow> (c # l) # ls))"

lemma file_lines_Nil: "file_lines s = [] \<longleftrightarrow> s = []"
  by (cases s) (auto split: list.splits)

lemma concat_file_lines: "concat (file_lines s) = s"
  by (induction s) (auto split: list.splits)

lemma getline_split_file_lines:
  "s \<noteq> [] \<Longrightarrow> getline_split s = (hd (file_lines s), snd (getline_split s)) \<and>
     file_lines (snd (getline_split s)) = tl (file_lines s)"
proof (induction s)
  case Nil
  then show ?case by simp
next
  case (Cons c cs)
  show ?case
  proof (cases "cs = []")
    case True
    then show ?thesis by simp
  next
    case False
    with Cons.IH show ?thesis
      by (auto split: prod.splits list.splits simp: file_lines_Nil)
  qed
qed

lemma getline_Cons:
  assumes "file_lines (content fp) = l # ls"
  shows "getline fp = (Some l, fp\<lparr>content := concat ls\<rparr>)"
    and "file_lines (concat ls) = ls"
proof -
  from assms have ne: "content fp \<noteq> []" using file_lines_Nil [of "content fp"] by auto
  from getline_split_file_lines [OF ne] assms
  have g: "getline_split (content fp) = (l, snd (getline_split (content fp)))"
    and t: "file_lines (snd (getline_split (content fp))) = ls" by simp_all
  have "concat (file_lines (snd (getline_split (content fp)))) = snd (getline_split (content fp))"
    by (rule concat_file_lines)
  with t have r: "snd (getline_split (content fp)) = concat ls" by simp
  from t r show "file_lines (concat ls) = ls" by simp
  from g r ne show "getline fp = (Some l, fp\<lparr>content := concat ls\<rparr>)"
    by (simp add: getline_def split: prod.splits)
qed

lemma getline_Nil:
  "file_lines (content fp) = [] \<Longrightarrow> getline fp = (None, fp\<lparr>err_ind := err_ind fp \<or> rd_fails fp\<rparr>)"
  by (simp add: file_lines_Nil getline_def)

section \<open>Patterns from a file\<close>

lemma grep_pattern_file_loop_fold:
  "file_lines (content fp) = ls \<Longrightarrow>
   grep_pattern_file_loop plat fp st =
     (fold (grep_pattern_append plat) (map chop_last ls) st,
      fp\<lparr>content := [], err_ind := err_ind fp \<or> rd_fails fp\<rparr>)"
proof (induction ls arbitrary: fp st)
  case Nil
  from getline_Nil [OF Nil] have "grep_pattern_file_loop plat fp st =
      (st, fp\<lparr>err_ind := err_ind fp \<or> rd_fails fp\<rparr>)"
    by (subst grep_pattern_file_loop.simps) simp
  moreover have "content fp = []" using Nil by (simp add: file_lines_Nil)
  ultimately show ?case by simp
next
  case (Cons l ls)
  from getline_Cons [OF Cons.prems]
  have g: "getline fp = (Some l, fp\<lparr>content := concat ls\<rparr>)"
    and t: "file_lines (content (fp\<lparr>content := concat ls\<rparr>)) = ls" by simp_all
  have "grep_pattern_file_loop plat fp st =
          grep_pattern_file_loop plat (fp\<lparr>content := concat ls\<rparr>)
            (grep_pattern_append plat (chop_last l) st)"
    by (subst grep_pattern_file_loop.simps) (simp add: g)
  with Cons.IH [OF t] show ?case by simp
qed

text \<open>
  C3. The claim: \<^verbatim>\<open>grep_pattern_file\<close> appends each line of the file with its trailing
  line terminator, and nothing else, removed; a final line without a newline is
  appended whole. \<^verbatim>\<open>line[read - 1] = '\0'\<close> removes the last byte of every line, whatever
  it is: from a file holding \<open>ab\<close>, a newline and \<open>cd\<close> with no newline after it, the
  patterns appended are \<open>ab\<close> and \<open>c\<close>.
\<close>

theorem grep_pattern_file_chops_last_line:
  "map pattern (pattern_list (fst (grep_pattern_file example_platform ''pats''
       (grep_ctx_init, example_world [(''pats'', ''ab\<newline>cd'')] [])))) = [''ab'', ''c''] \<and>
   status_code (fst (grep_pattern_file example_platform ''pats''
       (grep_ctx_init, example_world [(''pats'', ''ab\<newline>cd'')] []))) = GREP_EXIT_NOMATCH"
proof -
  let ?w = "(example_world [(''pats'', ''ab\<newline>cd'')] [])\<lparr>opened := [''pats'']\<rparr>"
  let ?fp = "\<lparr>content = ''ab\<newline>cd'', rd_fails = False, err_ind = False, close_fails = False\<rparr>"
  have a: "alloc_fails ?w = []" by (simp add: example_world_def)
  have f: "patterns_fit example_platform grep_ctx_init (length [''ab'', ''c''])"
    by (simp add: patterns_fit_def grep_ctx_init_def example_platform_def)
  have l: "file_lines (content ?fp) = [''ab\<newline>'', ''cd'']" by simp
  have c: "map chop_last [''ab\<newline>'', ''cd''] = [''ab'', ''c'']"
    by (simp add: chop_last_def cstr_def)
  have "grep_pattern_file_loop example_platform ?fp (grep_ctx_init, ?w) =
          ((add_patterns [''ab'', ''c''] grep_ctx_init, ?w),
           ?fp\<lparr>content := [], err_ind := err_ind ?fp \<or> rd_fails ?fp\<rparr>)"
    using grep_pattern_file_loop_fold [OF l, of example_platform "(grep_ctx_init, ?w)"]
      fold_grep_pattern_append [OF a f]
    by (simp only: c)
  then show ?thesis
    by (simp add: grep_pattern_file_def fopen_def example_world_def add_patterns_def
        new_pattern_def grep_ctx_init_def)
qed


lemma grep_pattern_file_patterns:
  assumes "fs w path = Inr fp" "alloc_fails w = []"
    and "patterns_fit plat ctx (length (file_lines (content fp)))"
  shows "pattern_list (fst (grep_pattern_file plat path (ctx, w))) =
           pattern_list ctx @ map (\<lambda>l. new_pattern (chop_last l)) (file_lines (content fp))"
proof -
  let ?w = "w\<lparr>opened := opened w @ [path]\<rparr>"
  have a: "alloc_fails ?w = []" using assms(2) by simp
  have f: "patterns_fit plat ctx (length (map chop_last (file_lines (content fp))))"
    using assms(3) by simp
  have "fst (grep_pattern_file_loop plat fp (ctx, ?w)) =
          (add_patterns (map chop_last (file_lines (content fp))) ctx, ?w)"
    using grep_pattern_file_loop_fold [OF refl, of plat fp "(ctx, ?w)"]
      fold_grep_pattern_append [OF a f] by simp
  then show ?thesis using assms(1)
    by (auto simp: grep_pattern_file_def fopen_def add_patterns_def grep_warn_def Let_def comp_def
        split: prod.splits)
qed

section \<open>Scanning with \<^verbatim>\<open>write_file_names\<close>\<close>

lemma grep_match_output_line_status [simp]:
  "grep_match_output_line (ctx\<lparr>status_code := x\<rparr>) line = grep_match_output_line ctx line"
  by (simp add: grep_match_output_line_def)

text \<open>The context when a line has matched: \<^verbatim>\<open>status_code\<close> becomes \<^verbatim>\<open>GREP_EXIT_MATCH\<close>
  unless it is \<^verbatim>\<open>GREP_EXIT_FAILURE\<close>.\<close>

definition matched_ctx :: "grep_ctx \<Rightarrow> grep_ctx" where
  "matched_ctx ctx =
     (if status_code ctx \<noteq> GREP_EXIT_FAILURE then ctx\<lparr>status_code := GREP_EXIT_MATCH\<rparr> else ctx)"

lemma grep_match_output_fp_loop_first_match:
  assumes "write_file_names ctx"
    and "file_lines (content fp) = pre @ raw # post"
    and "\<forall>l\<in>set pre. \<not> grep_match_output_line ctx (chop_last l)"
    and "grep_match_output_line ctx (chop_last raw)"
  shows "grep_match_output_fp_loop path fp line_i match_i (ctx, w) =
           (stdout_call (Puts path) ''puts: %s'' (matched_ctx ctx, w),
            fp\<lparr>content := concat post\<rparr>, line_i + of_nat (length pre), match_i + 1)"
  using assms(2,3)
proof (induction pre arbitrary: fp line_i)
  case Nil
  then have l: "file_lines (content fp) = raw # post" by simp
  from getline_Cons(1) [OF l] assms(1,4) show ?case
    by (subst grep_match_output_fp_loop.simps) (simp add: matched_ctx_def Let_def)
next
  case (Cons l pre)
  then have ls: "file_lines (content fp) = l # (pre @ raw # post)"
    and nm: "\<not> grep_match_output_line ctx (chop_last l)" by simp_all
  from getline_Cons [OF ls]
  have g: "getline fp = (Some l, fp\<lparr>content := concat (pre @ raw # post)\<rparr>)"
    and t: "file_lines (content (fp\<lparr>content := concat (pre @ raw # post)\<rparr>)) = pre @ raw # post"
    by simp_all
  have "grep_match_output_fp_loop path fp line_i match_i (ctx, w) =
          grep_match_output_fp_loop path (fp\<lparr>content := concat (pre @ raw # post)\<rparr>)
            (line_i + 1) match_i (ctx, w)"
    using g nm by (subst grep_match_output_fp_loop.simps) simp
  also have "\<dots> = (stdout_call (Puts path) ''puts: %s'' (matched_ctx ctx, w),
            fp\<lparr>content := concat (pre @ raw # post)\<rparr>\<lparr>content := concat post\<rparr>,
            line_i + 1 + of_nat (length pre), match_i + 1)"
    using Cons.prems(2) by (intro Cons.IH [OF t]) simp
  finally show ?case by simp
qed

lemma stdout_call_ok:
  "out_fails w = [] \<Longrightarrow> stdout_call ev fmt (ctx, w) = (ctx, w\<lparr>stdout := stdout w @ [ev]\<rparr>)"
  by (simp add: stdout_call_def write_stdout_def)

text \<open>
  When no output call fails and the first line whose scanned text matches is \<open>raw\<close>, after
  the lines \<open>pre\<close> and before the lines \<open>post\<close>: one \<^verbatim>\<open>puts(path)\<close> is written (followed by
  the count line only when \<^verbatim>\<open>line_count\<close> is set as well) and all of \<open>post\<close> is left unread.
\<close>

lemma grep_match_output_fp_first_match:
  assumes "write_file_names ctx"
    and "file_lines (content fp) = pre @ raw # post"
    and "\<forall>l\<in>set pre. \<not> grep_match_output_line ctx (chop_last l)"
    and "grep_match_output_line ctx (chop_last raw)"
    and "out_fails w = []"
  shows "stdout (snd (fst (grep_match_output_fp path fp (ctx, w)))) =
           stdout w @ Puts path #
             (if line_count ctx
              then (if num_files ctx > 1 then [Printf_s_colon path] else []) @ [Printf_d_nl 1]
              else []) \<and>
         content (snd (grep_match_output_fp path fp (ctx, w))) = concat post"
proof -
  let ?w1 = "w\<lparr>stdout := stdout w @ [Puts path]\<rparr>"
  have loop: "grep_match_output_fp_loop path fp 1 0 (ctx, w) =
      ((matched_ctx ctx, ?w1), fp\<lparr>content := concat post\<rparr>, 1 + of_nat (length pre), 0 + 1)"
    using grep_match_output_fp_loop_first_match [OF assms(1-4), of path 1 0 w]
    by (simp add: stdout_call_ok [OF assms(5)])
  obtain ctx2 w2 where s2:
    "(if err_ind fp then grep_warn True path (matched_ctx ctx, ?w1) else (matched_ctx ctx, ?w1))
       = (ctx2, w2)"
    by fastforce
  then have r2: "stdout w2 = stdout w @ [Puts path]" "out_fails w2 = []"
    "line_count ctx2 = line_count ctx" "num_files ctx2 = num_files ctx"
    using assms(5) by (auto simp: grep_warn_def matched_ctx_def split: if_splits)
  have o3: "out_fails (w2\<lparr>stdout := stdout w2 @ [Printf_s_colon path]\<rparr>) = []"
    using r2(2) by simp
  have "grep_match_output_fp path fp (ctx, w) =
          (if line_count ctx then
             (if num_files ctx > 1
              then (ctx2, w2\<lparr>stdout := stdout w2 @ [Printf_s_colon path, Printf_d_nl 1]\<rparr>)
              else (ctx2, w2\<lparr>stdout := stdout w2 @ [Printf_d_nl 1]\<rparr>))
           else (ctx2, w2), fp\<lparr>content := concat post\<rparr>)"
    using loop s2 r2(3,4)
    by (simp add: grep_match_output_fp_def Let_def stdout_call_ok [OF r2(2)] stdout_call_ok [OF o3])
  then show ?thesis using r2(1) by simp
qed

lemma grep_match_output_fp_first_match_exists:
  assumes "write_file_names ctx"
    and "\<exists>l\<in>set (file_lines (content fp)). grep_match_output_line ctx (chop_last l)"
    and "out_fails w = []"
  shows "stdout (snd (fst (grep_match_output_fp path fp (ctx, w)))) =
           stdout w @ Puts path #
             (if line_count ctx
              then (if num_files ctx > 1 then [Printf_s_colon path] else []) @ [Printf_d_nl 1]
              else []) \<and>
         content (snd (grep_match_output_fp path fp (ctx, w))) =
           concat (tl (dropWhile (\<lambda>l. \<not> grep_match_output_line ctx (chop_last l))
             (file_lines (content fp))))"
proof -
  let ?P = "\<lambda>l. \<not> grep_match_output_line ctx (chop_last l)"
  let ?ls = "file_lines (content fp)"
  from assms(2) have ne: "dropWhile ?P ?ls \<noteq> []" by (simp add: dropWhile_eq_Nil_conv)
  then have split: "?ls = takeWhile ?P ?ls @ hd (dropWhile ?P ?ls) # tl (dropWhile ?P ?ls)"
    by simp
  have pre: "\<forall>l\<in>set (takeWhile ?P ?ls). \<not> grep_match_output_line ctx (chop_last l)"
    by (auto dest: set_takeWhileD)
  have raw: "grep_match_output_line ctx (chop_last (hd (dropWhile ?P ?ls)))"
    using hd_dropWhile [OF ne] by simp
  from grep_match_output_fp_first_match [OF assms(1) split pre raw assms(3)] show ?thesis .
qed

text \<open>
  C4. The claim: with \<^verbatim>\<open>write_file_names\<close>, for every stream that holds a matching line the
  path is written exactly once, at the first matching line, and no later line is read.
  The scan tests each line after \<^verbatim>\<open>line[read - 1] = '\0'\<close> has removed its last byte, so a
  last line without a newline is tested without its last character: on a file holding
  \<open>xyz\<close>, a newline and \<open>abc\<close> with no newline after it, the run with \<^verbatim>\<open>-F -l -e abc\<close> tests
  \<open>ab\<close>, writes nothing and returns \<^verbatim>\<open>GREP_EXIT_NOMATCH\<close>, although the line \<open>abc\<close> matches
  the pattern. With the newline present the path is written once and the later matching
  line is left unread.
\<close>

theorem grep_main_write_file_names_unterminated:
  "grep_match_fixed_strstr (new_pattern ''abc'') ''abc'' \<and>
   fst (grep_main example_platform [Opt_F, Opt_l, Opt_e ''abc''] [''f'']
     (example_world [(''f'', ''xyz\<newline>abc'')] [])) = GREP_EXIT_NOMATCH \<and>
   stdout (snd (grep_main example_platform [Opt_F, Opt_l, Opt_e ''abc''] [''f'']
     (example_world [(''f'', ''xyz\<newline>abc'')] []))) = [] \<and>
   fst (grep_main example_platform [Opt_F, Opt_l, Opt_e ''abc''] [''f'']
     (example_world [(''f'', ''xyz\<newline>abc\<newline>abc\<newline>'')] [])) = GREP_EXIT_MATCH \<and>
   stdout (snd (grep_main example_platform [Opt_F, Opt_l, Opt_e ''abc''] [''f'']
     (example_world [(''f'', ''xyz\<newline>abc\<newline>abc\<newline>'')] []))) = [Puts ''f'']"
  by code_simp

section \<open>Compiling: the full-line rewrite and compile failures\<close>

lemma unat_strlen: "length s < 2 ^ 64 \<Longrightarrow> unat (strlen s) = length s"
  by (simp add: strlen_def unat_of_nat)

text \<open>\<^verbatim>\<open>strlen(pattern) + 5\<close> does not fit a \<^verbatim>\<open>size_t\<close>.\<close>

definition bol_eol_size_overflows :: "grep_pattern \<Rightarrow> bool" where
  "bol_eol_size_overflows p \<longleftrightarrow> (2 :: nat) ^ 64 \<le> unat (strlen (pattern p)) + 5"

lemma grep_pattern_add_bol_eol_outcome:
  "grep_pattern_add_bol_eol p (ctx, w) =
     (if bol_eol_size_overflows p then
        (p, ctx\<lparr>status_code := GREP_EXIT_FAILURE\<rparr>,
            w\<lparr>stderr := stderr w @ [(False, ''malloc: %zu'')]\<rparr>)
      else if next_alloc_fails w then
        (p, ctx\<lparr>status_code := GREP_EXIT_FAILURE\<rparr>,
            (snd (alloc w))\<lparr>stderr := stderr w @ [(True, ''malloc: %zu'')]\<rparr>)
      else
        (p\<lparr>pattern := ''^('' @ pattern p @ '')$''\<rparr>, ctx, free_str (pattern p) (snd (alloc w))))"
proof -
  obtain wr sz where a: "si_add_size_t (strlen (pattern p)) 5 = (wr, sz)" by fastforce
  have wr: "wr \<longleftrightarrow> bol_eol_size_overflows p"
    using si_add_size_t_wraps [of "strlen (pattern p)" 5] a
    by (simp add: bol_eol_size_overflows_def)
  show ?thesis using a wr
    by (auto simp: grep_pattern_add_bol_eol_def grep_warn_def alloc_def next_alloc_fails_def
        split: list.splits)
qed

text \<open>What one iteration leaves in the array for the element \<open>p\<close> when \<^verbatim>\<open>regcomp\<close> is given
  the text \<open>t\<close>.\<close>

definition compiled_from :: "platform \<Rightarrow> cflag set \<Rightarrow> string \<Rightarrow> grep_pattern \<Rightarrow> grep_pattern" where
  "compiled_from plat cflags t p =
     (if regcomp plat cflags t = 0
      then p\<lparr>pattern := t, regex := Some (Regex cflags t), compiled := True\<rparr>
      else p\<lparr>pattern := t\<rparr>)"

lemma grep_compile_loop_plain:
  "\<not> full_string_match (fst st) \<Longrightarrow>
   fst (grep_compile_loop plat cflags ps st) = map (\<lambda>p. compiled_from plat cflags (pattern p) p) ps \<and>
   \<not> full_string_match (fst (snd (grep_compile_loop plat cflags ps st)))"
proof (induction ps arbitrary: st)
  case Nil
  then show ?case by simp
next
  case (Cons p ps)
  obtain p' st1 where c: "grep_compile_pattern plat cflags p st = (p', st1)"
    by (cases "grep_compile_pattern plat cflags p st") auto
  from Cons.prems c have p': "p' = compiled_from plat cflags (pattern p) p"
    and f: "\<not> full_string_match (fst st1)"
    by (auto simp: grep_compile_pattern_def compiled_from_def grep_warn_def Let_def
        split: if_splits prod.splits)
  obtain ps2 st2 where l: "grep_compile_loop plat cflags ps st1 = (ps2, st2)"
    by (cases "grep_compile_loop plat cflags ps st1") auto
  from Cons.IH [OF f] l have "ps2 = map (\<lambda>p. compiled_from plat cflags (pattern p) p) ps"
    and "\<not> full_string_match (fst st2)" by simp_all
  with c l p' show ?case by simp
qed

lemma grep_compile_loop_full:
  assumes "full_string_match (fst st)" "alloc_fails (snd st) = []"
    and "\<forall>p\<in>set ps. length (pattern p) + 5 < 2 ^ 64"
  shows "fst (grep_compile_loop plat cflags ps st) =
           map (\<lambda>p. compiled_from plat cflags (''^('' @ pattern p @ '')$'') p) ps \<and>
         full_string_match (fst (snd (grep_compile_loop plat cflags ps st))) \<and>
         alloc_fails (snd (snd (grep_compile_loop plat cflags ps st))) = []"
  using assms
proof (induction ps arbitrary: st)
  case Nil
  then show ?case by simp
next
  case (Cons p ps)
  obtain ctx w where st: "st = (ctx, w)" by (cases st)
  from Cons.prems(3) have len: "length (pattern p) + 5 < 2 ^ 64" by simp
  then have "unat (strlen (pattern p)) = length (pattern p)" by (intro unat_strlen) simp
  with len have nov: "\<not> bol_eol_size_overflows p" by (simp add: bol_eol_size_overflows_def)
  have naf: "\<not> next_alloc_fails w" using Cons.prems(2) st by (simp add: next_alloc_fails_def)
  have al: "alloc w = (True, w)" using Cons.prems(2) st by (simp add: alloc_def)
  have r: "grep_pattern_add_bol_eol p (ctx, w) =
             (p\<lparr>pattern := ''^('' @ pattern p @ '')$''\<rparr>, ctx, free_str (pattern p) w)"
    using grep_pattern_add_bol_eol_outcome [of p ctx w] nov naf al by simp
  obtain p' st1 where c: "grep_compile_pattern plat cflags p st = (p', st1)"
    by (cases "grep_compile_pattern plat cflags p st") auto
  from c r st Cons.prems(1,2)
  have p': "p' = compiled_from plat cflags (''^('' @ pattern p @ '')$'') p"
    and f: "full_string_match (fst st1)" and a: "alloc_fails (snd st1) = []"
    by (auto simp: grep_compile_pattern_def compiled_from_def grep_warn_def free_str_def Let_def
        split: if_splits)
  from Cons.prems(3) have rest: "\<forall>p\<in>set ps. length (pattern p) + 5 < 2 ^ 64" by simp
  obtain ps2 st2 where l: "grep_compile_loop plat cflags ps st1 = (ps2, st2)"
    by (cases "grep_compile_loop plat cflags ps st1") auto
  from Cons.IH [OF f a rest] l
  have "ps2 = map (\<lambda>p. compiled_from plat cflags (''^('' @ pattern p @ '')$'') p) ps"
    and "full_string_match (fst st2)" and "alloc_fails (snd st2) = []" by simp_all
  with c l p' show ?case by simp
qed

lemma grep_match_fixed_strcmp_eq: "grep_match_fixed_strcmp p line \<longleftrightarrow> line = pattern p"
proof -
  have "strcmp a b = 0 \<longleftrightarrow> a = b" for a b
    by (induction a b rule: strcmp.induct) auto
  then show ?thesis by (simp add: grep_match_fixed_strcmp_def)
qed

lemma grep_match_fixed_strcasecmp_eq:
  "grep_match_fixed_strcasecmp p line \<longleftrightarrow> map tolower line = map tolower (pattern p)"
proof -
  have "strcmp a b = 0 \<longleftrightarrow> a = b" for a b
    by (induction a b rule: strcmp.induct) auto
  then show ?thesis by (simp add: grep_match_fixed_strcasecmp_def strcasecmp_def)
qed

text \<open>
  C5. On the regular expression path (\<^verbatim>\<open>fixed_string\<close> off) with \<^verbatim>\<open>full_string_match\<close> set,
  when no allocation fails and every \<^verbatim>\<open>strlen + 5\<close> fits, every pattern text \<open>t\<close> becomes
  \<open>^(t)$\<close>, and that text is what \<^verbatim>\<open>regcomp\<close> compiles; the length is computed by the
  checked addition and the buffer is a fresh allocation, a failure of either leaving the
  text as it was with the failure status. With \<^verbatim>\<open>fixed_string\<close> set nothing is compiled
  or rewritten, and with \<^verbatim>\<open>full_string_match\<close> the match function is \<^verbatim>\<open>strcmp\<close> equality,
  or equality of the case-folded strings when \<^verbatim>\<open>case_insensitive\<close> is set.
\<close>

theorem grep_main_compile_full_line:
  "(\<not> fixed_string ctx \<and> full_string_match ctx \<and> alloc_fails w = [] \<and>
    (\<forall>p\<in>set (pattern_list ctx). length (pattern p) + 5 < 2 ^ 64) \<longrightarrow>
      pattern_list (fst (grep_main_compile plat (ctx, w))) =
        map (\<lambda>p. compiled_from plat (grep_cflags ctx) (''^('' @ pattern p @ '')$'') p)
          (pattern_list ctx)) \<and>
   (\<forall>p ctx0 w0. grep_pattern_add_bol_eol p (ctx0, w0) =
      (if bol_eol_size_overflows p then
         (p, ctx0\<lparr>status_code := GREP_EXIT_FAILURE\<rparr>,
             w0\<lparr>stderr := stderr w0 @ [(False, ''malloc: %zu'')]\<rparr>)
       else if next_alloc_fails w0 then
         (p, ctx0\<lparr>status_code := GREP_EXIT_FAILURE\<rparr>,
             (snd (alloc w0))\<lparr>stderr := stderr w0 @ [(True, ''malloc: %zu'')]\<rparr>)
       else
         (p\<lparr>pattern := ''^('' @ pattern p @ '')$''\<rparr>, ctx0,
          free_str (pattern p) (snd (alloc w0))))) \<and>
   (fixed_string ctx \<longrightarrow>
      grep_main_compile plat (ctx, w) = (grep_set_fn_match plat ctx, w) \<and>
      pattern_list (grep_set_fn_match plat ctx) = pattern_list ctx \<and>
      (full_string_match ctx \<longrightarrow>
         fn_match (grep_set_fn_match plat ctx) =
           Some (if case_insensitive ctx then grep_match_fixed_strcasecmp
                 else grep_match_fixed_strcmp))) \<and>
   (\<forall>p line. grep_match_fixed_strcmp p line \<longleftrightarrow> line = pattern p) \<and>
   (\<forall>p line. grep_match_fixed_strcasecmp p line \<longleftrightarrow>
      map tolower line = map tolower (pattern p))"
proof -
  have a: "pattern_list (fst (grep_main_compile plat (ctx, w))) =
        map (\<lambda>p. compiled_from plat (grep_cflags ctx) (''^('' @ pattern p @ '')$'') p)
          (pattern_list ctx)"
    if h: "\<not> fixed_string ctx" "full_string_match ctx" "alloc_fails w = []"
      "\<forall>p\<in>set (pattern_list ctx). length (pattern p) + 5 < 2 ^ 64"
  proof -
    let ?ctx = "grep_set_fn_match plat ctx"
    have e: "fixed_string ?ctx = fixed_string ctx" "full_string_match ?ctx = full_string_match ctx"
      "pattern_list ?ctx = pattern_list ctx" "grep_cflags ?ctx = grep_cflags ctx"
      by (simp_all add: grep_set_fn_match_def grep_cflags_def)
    obtain ps1 ctx1 w1 where l:
      "grep_compile_loop plat (grep_cflags ctx) (pattern_list ctx) (?ctx, w) = (ps1, (ctx1, w1))"
      by (metis surj_pair)
    from grep_compile_loop_full [of "(?ctx, w)" "pattern_list ctx" plat "grep_cflags ctx"] h e l
    have "ps1 = map (\<lambda>p. compiled_from plat (grep_cflags ctx) (''^('' @ pattern p @ '')$'') p)
          (pattern_list ctx)" by simp
    with h(1) e l show ?thesis
      by (simp add: grep_main_compile_def grep_compile_pattern_list_def Let_def)
  qed
  have c: "grep_main_compile plat (ctx, w) = (grep_set_fn_match plat ctx, w) \<and>
      pattern_list (grep_set_fn_match plat ctx) = pattern_list ctx \<and>
      (full_string_match ctx \<longrightarrow>
         fn_match (grep_set_fn_match plat ctx) =
           Some (if case_insensitive ctx then grep_match_fixed_strcasecmp
                 else grep_match_fixed_strcmp))"
    if "fixed_string ctx"
    using that by (simp add: grep_main_compile_def grep_set_fn_match_def Let_def)
  show ?thesis
    using a c grep_pattern_add_bol_eol_outcome grep_match_fixed_strcmp_eq
      grep_match_fixed_strcasecmp_eq by blast
qed

theorem grep_main_compile_full_line_witness:
  "pattern_list (fst (grep_main_compile example_platform
       (grep_ctx_init\<lparr>full_string_match := True, pattern_list := [new_pattern ''abc'']\<rparr>,
        example_world [] []))) =
     [\<lparr>pattern = ''^(abc)$'', regex = Some (Regex {REG_NOSUB} ''^(abc)$''), compiled = True\<rparr>] \<and>
   fn_match (fst (grep_main_compile example_platform
       (grep_ctx_init\<lparr>fixed_string := True, full_string_match := True,
          pattern_list := [new_pattern ''abc'']\<rparr>, example_world [] []))) =
     Some grep_match_fixed_strcmp \<and>
   pattern_list (fst (grep_main_compile example_platform
       (grep_ctx_init\<lparr>fixed_string := True, full_string_match := True,
          pattern_list := [new_pattern ''abc'']\<rparr>, example_world [] []))) = [new_pattern ''abc'']"
  using grep_main_compile_full_line [of
      "grep_ctx_init\<lparr>full_string_match := True, pattern_list := [new_pattern ''abc'']\<rparr>"
      "example_world [] []" example_platform]
    grep_main_compile_full_line [of
      "grep_ctx_init\<lparr>fixed_string := True, full_string_match := True,
          pattern_list := [new_pattern ''abc'']\<rparr>"
      "example_world [] []" example_platform]
  by (simp add: grep_ctx_init_def example_world_def example_platform_def new_pattern_def
      compiled_from_def grep_cflags_def grep_set_fn_match_def)

text \<open>One iteration of the compile loop: what it records for the element, and what it
  leaves alone.\<close>

lemma grep_compile_pattern_result:
  assumes "grep_compile_pattern plat cflags p st = (p', st')"
  shows "(regcomp plat cflags (pattern p') = 0 \<longrightarrow>
            compiled p' \<and> regex p' = Some (Regex cflags (pattern p'))) \<and>
         (regcomp plat cflags (pattern p') \<noteq> 0 \<longrightarrow>
            compiled p' = compiled p \<and> status_code (fst st') = GREP_EXIT_FAILURE) \<and>
         (status_code (fst st) = GREP_EXIT_FAILURE \<longrightarrow>
            status_code (fst st') = GREP_EXIT_FAILURE) \<and>
         fst st' = (fst st)\<lparr>status_code := status_code (fst st')\<rparr> \<and>
         stdout (snd st') = stdout (snd st) \<and> stdin (snd st') = stdin (snd st) \<and>
         opened (snd st') = opened (snd st)"
proof -
  obtain ctx w where st: "st = (ctx, w)" by (cases st)
  show ?thesis using assms st grep_pattern_add_bol_eol_outcome [of p ctx w]
    by (auto simp: grep_compile_pattern_def grep_warn_def free_str_def alloc_def Let_def
        split: if_splits list.splits)
qed

lemma grep_compile_loop_result:
  assumes "grep_compile_loop plat cflags ps st = (ps', st')"
    and "\<forall>p\<in>set ps. \<not> compiled p"
  shows "length ps' = length ps \<and>
         (\<forall>p'\<in>set ps'. compiled p' \<longleftrightarrow> regcomp plat cflags (pattern p') = 0) \<and>
         ((\<exists>p'\<in>set ps'. regcomp plat cflags (pattern p') \<noteq> 0) \<longrightarrow>
            status_code (fst st') = GREP_EXIT_FAILURE) \<and>
         (status_code (fst st) = GREP_EXIT_FAILURE \<longrightarrow>
            status_code (fst st') = GREP_EXIT_FAILURE) \<and>
         fst st' = (fst st)\<lparr>status_code := status_code (fst st')\<rparr> \<and>
         stdout (snd st') = stdout (snd st) \<and> stdin (snd st') = stdin (snd st) \<and>
         opened (snd st') = opened (snd st)"
  using assms
proof (induction ps arbitrary: st ps' st')
  case Nil
  then show ?case by auto
next
  case (Cons p ps)
  obtain p1 st1 where c: "grep_compile_pattern plat cflags p st = (p1, st1)"
    by (cases "grep_compile_pattern plat cflags p st") auto
  obtain ps2 st2 where l: "grep_compile_loop plat cflags ps st1 = (ps2, st2)"
    by (cases "grep_compile_loop plat cflags ps st1") auto
  from Cons.prems(1) c l have e: "ps' = p1 # ps2" "st' = st2" by simp_all
  from Cons.prems(2) have np: "\<not> compiled p" and nps: "\<forall>p\<in>set ps. \<not> compiled p" by simp_all
  note r1 = grep_compile_pattern_result [OF c]
  note r2 = Cons.IH [OF l nps]
  have fr: "fst st2 = (fst st)\<lparr>status_code := status_code (fst st2)\<rparr>"
  proof -
    from r1 have "fst st1 = (fst st)\<lparr>status_code := status_code (fst st1)\<rparr>" by blast
    moreover from r2 have "fst st2 = (fst st1)\<lparr>status_code := status_code (fst st2)\<rparr>" by blast
    ultimately show ?thesis by (metis grep_ctx.update_convs(1) grep_ctx.surjective)
  qed
  show ?case unfolding e using r1 r2 np fr by auto
qed

text \<open>
  C6. On the regular expression path, when \<^verbatim>\<open>regcomp\<close> fails for the text of some pattern,
  the status after compiling is the failure status; every pattern of the list is still
  given to \<^verbatim>\<open>regcomp\<close>, those it accepts being marked compiled wherever they stand in
  the list; and the scanning part of \<^verbatim>\<open>grep_main\<close> then does nothing: nothing is written
  to standard output, standard input is not read and no file is opened.
\<close>

theorem grep_main_compile_failure:
  assumes "\<not> fixed_string ctx"
    and "\<forall>p\<in>set (pattern_list ctx). \<not> compiled p"
    and "grep_main_compile plat (ctx, w) = (ctx', w')"
    and "\<exists>p'\<in>set (pattern_list ctx'). regcomp plat (grep_cflags ctx) (pattern p') \<noteq> 0"
  shows "status_code ctx' = GREP_EXIT_FAILURE \<and>
         length (pattern_list ctx') = length (pattern_list ctx) \<and>
         (\<forall>p'\<in>set (pattern_list ctx').
            compiled p' \<longleftrightarrow> regcomp plat (grep_cflags ctx) (pattern p') = 0) \<and>
         grep_main_scan argv (ctx', w') = (ctx', w') \<and>
         stdout w' = stdout w \<and> stdin w' = stdin w \<and> opened w' = opened w"
proof -
  let ?ctx = "grep_set_fn_match plat ctx"
  have e: "fixed_string ?ctx = fixed_string ctx" "pattern_list ?ctx = pattern_list ctx"
    "grep_cflags ?ctx = grep_cflags ctx"
    by (simp_all add: grep_set_fn_match_def grep_cflags_def)
  obtain ps1 ctx1 w1 where l: "grep_compile_loop plat (grep_cflags ctx) (pattern_list ctx) (?ctx, w)
      = (ps1, (ctx1, w1))"
    by (metis surj_pair)
  from assms(1,3) l e have r: "ctx' = ctx1\<lparr>pattern_list := ps1\<rparr>" "w' = w1"
    by (simp_all add: grep_main_compile_def grep_compile_pattern_list_def Let_def)
  from grep_compile_loop_result [OF l assms(2)] r assms(4)
  have "status_code ctx' = GREP_EXIT_FAILURE"
    and "length (pattern_list ctx') = length (pattern_list ctx)"
    and "\<forall>p'\<in>set (pattern_list ctx').
            compiled p' \<longleftrightarrow> regcomp plat (grep_cflags ctx) (pattern p') = 0"
    and "stdout w' = stdout w \<and> stdin w' = stdin w \<and> opened w' = opened w"
    by auto
  then show ?thesis by (simp add: grep_main_scan_def)
qed

theorem grep_main_compile_failure_witness:
  "status_code (fst (grep_main_compile example_platform
       (grep_ctx_init\<lparr>pattern_list := [new_pattern ''[abc'', new_pattern ''ok'']\<rparr>,
        example_world [] ''ok\<newline>''))) = GREP_EXIT_FAILURE \<and>
   map compiled (pattern_list (fst (grep_main_compile example_platform
       (grep_ctx_init\<lparr>pattern_list := [new_pattern ''[abc'', new_pattern ''ok'']\<rparr>,
        example_world [] ''ok\<newline>'')))) = [False, True] \<and>
   grep_main_scan [] (grep_main_compile example_platform
       (grep_ctx_init\<lparr>pattern_list := [new_pattern ''[abc'', new_pattern ''ok'']\<rparr>,
        example_world [] ''ok\<newline>'')) =
     grep_main_compile example_platform
       (grep_ctx_init\<lparr>pattern_list := [new_pattern ''[abc'', new_pattern ''ok'']\<rparr>,
        example_world [] ''ok\<newline>'')"
proof -
  let ?ctx = "grep_ctx_init\<lparr>pattern_list := [new_pattern ''[abc'', new_pattern ''ok'']\<rparr>"
  let ?w = "example_world [] ''ok\<newline>''"
  let ?G = "grep_main_compile example_platform (?ctx, ?w)"
  have ev: "map pattern (pattern_list (fst ?G)) = [''[abc'', ''ok''] \<and>
            map compiled (pattern_list (fst ?G)) = [False, True]"
    by (simp add: grep_main_compile_def grep_compile_pattern_list_def grep_compile_pattern_def
        grep_set_fn_match_def grep_ctx_init_def new_pattern_def example_platform_def
        grep_warn_def grep_cflags_def Let_def)
  have 1: "\<not> fixed_string ?ctx" by (simp add: grep_ctx_init_def)
  have 2: "\<forall>p\<in>set (pattern_list ?ctx). \<not> compiled p" by (simp add: new_pattern_def)
  have 3: "?G = (fst ?G, snd ?G)" by simp
  have 4: "\<exists>p'\<in>set (pattern_list (fst ?G)).
             regcomp example_platform (grep_cflags ?ctx) (pattern p') \<noteq> 0"
    by (simp add: grep_main_compile_def grep_compile_pattern_list_def grep_compile_pattern_def
        grep_set_fn_match_def grep_ctx_init_def new_pattern_def example_platform_def
        grep_warn_def grep_cflags_def Let_def)
  from grep_main_compile_failure [OF 1 2 3 4, of "[]"] ev show ?thesis by simp
qed

text \<open>The whole run on the invalid pattern \<open>[abc\<close>: exit status 2 and no output, although
  the first line of standard input holds the second pattern.\<close>

lemma grep_main_invalid_pattern:
  "fst (grep_main example_platform [Opt_e ''[abc'', Opt_e ''ok''] [] (example_world [] ''ok\<newline>'')) = 2 \<and>
   stdout (snd (grep_main example_platform [Opt_e ''[abc'', Opt_e ''ok''] []
     (example_world [] ''ok\<newline>''))) = [] \<and>
   content (stdin (snd (grep_main example_platform [Opt_e ''[abc'', Opt_e ''ok''] []
     (example_world [] ''ok\<newline>'')))) = ''ok\<newline>''"
  by code_simp

section \<open>The status code only escalates\<close>

text \<open>
  A step from status \<open>s\<close> to status \<open>s'\<close> that does not regress: the status is unchanged,
  or becomes \<^verbatim>\<open>GREP_EXIT_FAILURE\<close>, or becomes \<^verbatim>\<open>GREP_EXIT_MATCH\<close> from a status other than
  \<^verbatim>\<open>GREP_EXIT_FAILURE\<close>.
\<close>

definition escalates :: "int \<Rightarrow> int \<Rightarrow> bool" where
  "escalates s s' \<longleftrightarrow>
     s' = s \<or> s' = GREP_EXIT_FAILURE \<or> (s \<noteq> GREP_EXIT_FAILURE \<and> s' = GREP_EXIT_MATCH)"

text \<open>The same on states, and a step that changes nothing of a context but its status.\<close>

definition st_escalates :: "state \<Rightarrow> state \<Rightarrow> bool" where
  "st_escalates st st' \<longleftrightarrow> escalates (status_code (fst st)) (status_code (fst st'))"

definition only_status :: "grep_ctx \<Rightarrow> grep_ctx \<Rightarrow> bool" where
  "only_status ctx ctx' \<longleftrightarrow> ctx' = ctx\<lparr>status_code := status_code ctx'\<rparr>"

lemma st_escalates_refl [simp]: "st_escalates st st"
  by (simp add: st_escalates_def escalates_def)


lemma only_status_refl [simp]: "only_status ctx ctx"
  by (simp add: only_status_def)


lemma only_status_update [simp]: "only_status ctx (ctx\<lparr>status_code := x\<rparr>)"
  by (simp add: only_status_def)

lemma only_status_match:
  "only_status ctx ctx' \<Longrightarrow> grep_match_output_line ctx' line = grep_match_output_line ctx line"
  unfolding only_status_def using grep_match_output_line_status by metis




lemma grep_warn_only_status: "only_status (fst st) (fst (grep_warn errno_msg fmt st))"
  by (cases st) (simp add: grep_warn_def)













































section \<open>The empty pattern\<close>

text \<open>Under the four fixed-string strategies: the two substring searches find the empty
  pattern in every line, the two comparisons accept the empty line only.\<close>

lemma strstr_empty: "strstr line [] = Some 0"
  by (cases line) simp_all

lemma empty_pattern_fixed_string:
  "grep_match_fixed_strstr (new_pattern []) line \<and>
   grep_match_fixed_strcasestr (new_pattern []) line \<and>
   (grep_match_fixed_strcmp (new_pattern []) line \<longleftrightarrow> line = []) \<and>
   (grep_match_fixed_strcasecmp (new_pattern []) line \<longleftrightarrow> line = [])"
  by (simp add: grep_match_fixed_strstr_def grep_match_fixed_strcasestr_def
      grep_strcasestr_def strstr_empty grep_match_fixed_strcmp_eq
      grep_match_fixed_strcasecmp_eq new_pattern_def)

text \<open>
  On the regular expression path the program decides nothing itself: the line matches
  when \<^verbatim>\<open>regexec\<close> says so for the regular expression compiled, with the flags of
  \<^verbatim>\<open>grep_cflags\<close>, from the empty text, or from \<open>^()$\<close> when \<^verbatim>\<open>full_string_match\<close> is set.
\<close>

lemma empty_pattern_regex:
  assumes "\<not> fixed_string ctx" "\<not> invert_match ctx" "alloc_fails w = []"
    and "pattern_list ctx = [new_pattern []]"
    and "regcomp plat (grep_cflags ctx) (if full_string_match ctx then ''^()$'' else []) = 0"
  shows "grep_match_output_line (fst (grep_main_compile plat (ctx, w))) line \<longleftrightarrow>
           regexec plat (grep_cflags ctx) (if full_string_match ctx then ''^()$'' else []) line = 0"
proof -
  let ?ctx = "grep_set_fn_match plat ctx"
  let ?t = "if full_string_match ctx then ''^()$'' else []"
  have e: "fixed_string ?ctx = fixed_string ctx" "full_string_match ?ctx = full_string_match ctx"
    "pattern_list ?ctx = pattern_list ctx" "grep_cflags ?ctx = grep_cflags ctx"
    "invert_match ?ctx = invert_match ctx" "fn_match ?ctx = Some (grep_match_regex plat)"
    using assms(1) by (simp_all add: grep_set_fn_match_def grep_cflags_def)
  obtain ps1 ctx1 w1 where l:
    "grep_compile_loop plat (grep_cflags ctx) (pattern_list ctx) (?ctx, w) = (ps1, (ctx1, w1))"
    by (metis surj_pair)
  have ps1: "ps1 = [compiled_from plat (grep_cflags ctx) ?t (new_pattern [])]"
  proof (cases "full_string_match ctx")
    case True
    with grep_compile_loop_full [of "(?ctx, w)" "pattern_list ctx" plat "grep_cflags ctx"]
      e l assms(3,4) show ?thesis by (simp add: new_pattern_def)
  next
    case False
    with grep_compile_loop_plain [of "(?ctx, w)" plat "grep_cflags ctx" "pattern_list ctx"]
      e l assms(4) show ?thesis by (simp add: new_pattern_def)
  qed
  have o: "only_status ?ctx ctx1"
    using grep_compile_loop_result [OF l] assms(4) by (simp add: only_status_def new_pattern_def)
  then have c1: "fn_match ctx1 = Some (grep_match_regex plat)" "invert_match ctx1 = invert_match ctx"
    using e unfolding only_status_def
    by (metis grep_ctx.select_convs(15) grep_ctx.surjective grep_ctx.update_convs(1),
        metis grep_ctx.select_convs(11) grep_ctx.surjective grep_ctx.update_convs(1))
  have "fst (grep_main_compile plat (ctx, w)) = ctx1\<lparr>pattern_list := ps1\<rparr>"
    using assms(1) e l by (simp add: grep_main_compile_def grep_compile_pattern_list_def Let_def)
  then show ?thesis using ps1 c1 assms(2,5)
    by (simp add: grep_match_output_line_def grep_match_regex_def compiled_from_def)
qed

text \<open>
  \<^verbatim>\<open>regexec\<close> as POSIX defines it, on the regular expressions that are a string of
  ordinary characters between an optional leading \<open>^\<close> and an optional trailing \<open>$\<close>. In
  the basic syntax, the one \<^verbatim>\<open>regcomp\<close> uses without \<^verbatim>\<open>REG_EXTENDED\<close>, the parentheses are
  ordinary characters; in the extended syntax one pair of parentheses around the string
  groups it. With \<^verbatim>\<open>REG_ICASE\<close> letters match without regard to case. The result is 0 on
  a match and \<^verbatim>\<open>REG_NOMATCH\<close> (1) otherwise.
\<close>

definition posix_literal_regexec :: "cflag set \<Rightarrow> string \<Rightarrow> string \<Rightarrow> int" where
  "posix_literal_regexec cflags text line =
     (let bol = (text \<noteq> [] \<and> hd text = CHR ''^'');
          t1 = (if bol then tl text else text);
          eol = (t1 \<noteq> [] \<and> last t1 = CHR ''$'');
          t2 = (if eol then butlast t1 else t1);
          t3 = (if REG_EXTENDED \<in> cflags \<and> 2 \<le> length t2 \<and> hd t2 = CHR ''('' \<and>
                   last t2 = CHR '')''
                then butlast (tl t2) else t2);
          body = (if REG_ICASE \<in> cflags then map tolower t3 else t3);
          subject = (if REG_ICASE \<in> cflags then map tolower line else line);
          found = (if bol \<and> eol then subject = body
                   else if bol then prefix body subject
                   else if eol then suffix body subject
                   else sublist body subject)
      in if found then 0 else 1)"

definition posix_platform :: platform where
  "posix_platform =
     \<lparr>sizeof_grep_pattern = 80,
      regcomp = (\<lambda>cflags text. 0),
      regexec = posix_literal_regexec\<rparr>"

text \<open>
  C9. The claim: the empty pattern matches every line under both fixed-string substring
  strategies and in the default regular expression mode, and with \<^verbatim>\<open>full_string_match\<close> it
  matches only the empty line. The fixed-string part holds, and so does the default
  regular expression mode for a library that finds the empty expression everywhere.
  With \<^verbatim>\<open>full_string_match\<close> on the regular expression path the text compiled is \<open>^()$\<close>,
  with no \<^verbatim>\<open>REG_EXTENDED\<close> unless \<^verbatim>\<open>-E\<close> was given: in the basic syntax that expression
  matches the line \<open>()\<close> and not the empty line. On a standard input holding an empty
  line and the line \<open>()\<close>, the run with \<^verbatim>\<open>-x -e ''\<close> prints \<open>()\<close> only, and on an input of
  one empty line it prints nothing and returns \<^verbatim>\<open>GREP_EXIT_NOMATCH\<close>; with \<^verbatim>\<open>-E\<close> the empty
  line is the one printed.
\<close>

theorem grep_main_empty_pattern_full_line:
  "fst (grep_main posix_platform [Opt_x, Opt_e []] [] (example_world [] ''\<newline>'')) =
     GREP_EXIT_NOMATCH \<and>
   stdout (snd (grep_main posix_platform [Opt_x, Opt_e []] [] (example_world [] ''\<newline>''))) = [] \<and>
   stdout (snd (grep_main posix_platform [Opt_x, Opt_e []] []
     (example_world [] ''\<newline>()\<newline>''))) = [Puts ''()''] \<and>
   stdout (snd (grep_main posix_platform [Opt_E, Opt_x, Opt_e []] []
     (example_world [] ''\<newline>()\<newline>''))) = [Puts []] \<and>
   stdout (snd (grep_main posix_platform [Opt_e []] []
     (example_world [] ''\<newline>()\<newline>''))) = [Puts [], Puts ''()'']"
  by code_simp

end
